theory Spec2Isabelle
  imports Complex_Main "HOL-Library.Product_Lexorder" "HOL-Library.Monad_Syntax"
    "HOL-Library.Multiset"
begin

section \<open>Dates and times\<close>

text \<open>
  Python's \<^verbatim>\<open>datetime.date\<close> and its subclass \<^verbatim>\<open>datetime.datetime\<close>. Every timestamp of
  the program is made with \<^verbatim>\<open>tzinfo=timezone.utc\<close>, so the time zone is not a field of the
  model. The constructors of Python admit only non-negative fields, hence \<open>nat\<close>.
\<close>

record date =
  year :: nat
  month :: nat
  day :: nat

record datetime = date +
  hour :: nat
  minute :: nat
  second :: nat
  microsecond :: nat

definition is_leap :: "nat \<Rightarrow> bool" where
  "is_leap y = (y mod 4 = 0 \<and> (y mod 100 \<noteq> 0 \<or> y mod 400 = 0))"

definition days_in_month :: "nat \<Rightarrow> nat \<Rightarrow> nat" where
  "days_in_month y m =
     (if m = 2 then (if is_leap y then 29 else 28)
      else if m = 4 \<or> m = 6 \<or> m = 9 \<or> m = 11 then 30 else 31)"

text \<open>\<^verbatim>\<open>_days_before_year\<close>, \<^verbatim>\<open>_days_before_month\<close> and \<^verbatim>\<open>_ymd2ord\<close> of the datetime module.\<close>

definition days_before_year :: "nat \<Rightarrow> int" where
  "days_before_year y =
     (let y1 = int y - 1 in y1 * 365 + y1 div 4 - y1 div 100 + y1 div 400)"

definition DAYS_BEFORE_MONTH :: "int list" where
  "DAYS_BEFORE_MONTH = [0, 0, 31, 59, 90, 120, 151, 181, 212, 243, 273, 304, 334]"

definition days_before_month :: "nat \<Rightarrow> nat \<Rightarrow> int" where
  "days_before_month y m =
     (if m < length DAYS_BEFORE_MONTH then DAYS_BEFORE_MONTH ! m else 0)
       + (if m > 2 \<and> is_leap y then 1 else 0)"

definition toordinal :: "'a date_scheme \<Rightarrow> int" where
  "toordinal d = days_before_year (year d) + days_before_month (year d) (month d) + int (day d)"

text \<open>
  The range checks of the constructors (\<^verbatim>\<open>_check_date_fields\<close>, \<^verbatim>\<open>_check_time_fields\<close>):
  a date or datetime outside them cannot be built, the constructor raises ValueError.
\<close>

definition check_date_fields :: "nat \<Rightarrow> nat \<Rightarrow> nat \<Rightarrow> bool" where
  "check_date_fields y m d =
     (1 \<le> y \<and> y \<le> 9999 \<and> 1 \<le> m \<and> m \<le> 12 \<and> 1 \<le> d \<and> d \<le> days_in_month y m)"

definition check_time_fields :: "nat \<Rightarrow> nat \<Rightarrow> nat \<Rightarrow> nat \<Rightarrow> bool" where
  "check_time_fields h mi s us = (h \<le> 23 \<and> mi \<le> 59 \<and> s \<le> 59 \<and> us \<le> 999999)"

definition valid_datetime :: "datetime \<Rightarrow> bool" where
  "valid_datetime t =
     (check_date_fields (year t) (month t) (day t)
      \<and> check_time_fields (hour t) (minute t) (second t) (microsecond t))"

text \<open>
  \<^verbatim>\<open>(a - b).total_seconds()\<close> for two datetimes of the same time zone: the timedelta of
  the day, second and microsecond differences, read in seconds. Python's float is modelled
  by the real number it denotes (no rounding).
\<close>

definition day_seconds :: "datetime \<Rightarrow> int" where
  "day_seconds t = int (second t) + int (minute t) * 60 + int (hour t) * 3600"

definition total_seconds_between :: "datetime \<Rightarrow> datetime \<Rightarrow> real" where
  "total_seconds_between a b =
     real_of_int (((toordinal a - toordinal b) * 86400 + (day_seconds a - day_seconds b)) * 10 ^ 6
                  + (int (microsecond a) - int (microsecond b))) / 10 ^ 6"


definition date_key :: "'a date_scheme \<Rightarrow> nat \<times> nat \<times> nat" where
  "date_key d = (year d, month d, day d)"

section \<open>Floats\<close>

text \<open>
  A Python float: a finite value, modelled by the real it denotes, or one of the three
  special values that \<^verbatim>\<open>float()\<close> can read from text. Reading a float from text rounds to
  the nearest float (see \<open>round_double\<close> below); the arithmetic on finite floats is that of
  the reals.
\<close>

datatype pyfloat = Finite real | PosInf | NegInf | NaN

text \<open>
  The order of the floats other than nan, and the sum of two floats: an infinity plus a
  finite float or itself is that infinity, the two infinities add up to nan, and a nan
  stays.
\<close>

definition float_key :: "pyfloat \<Rightarrow> int \<times> real" where
  "float_key x = (case x of NegInf \<Rightarrow> (- 1, 0) | Finite r \<Rightarrow> (0, r) | PosInf \<Rightarrow> (1, 0)
                  | NaN \<Rightarrow> (2, 0))"

fun float_add :: "pyfloat \<Rightarrow> pyfloat \<Rightarrow> pyfloat" where
  "float_add (Finite x) (Finite y) = Finite (x + y)"
| "float_add NaN _ = NaN"
| "float_add _ NaN = NaN"
| "float_add PosInf NegInf = NaN"
| "float_add NegInf PosInf = NaN"
| "float_add PosInf _ = PosInf"
| "float_add _ PosInf = PosInf"
| "float_add NegInf _ = NegInf"
| "float_add _ NegInf = NegInf"

definition float_div :: "pyfloat \<Rightarrow> real \<Rightarrow> pyfloat" where
  "float_div x k = (case x of Finite r \<Rightarrow> Finite (r / k) | _ \<Rightarrow> x)"

section \<open>Exceptions\<close>

datatype py_error = IndexError | ValueError | StatisticsError | TypeError

section \<open>The statistics library functions\<close>

text \<open>
  The three library functions behind the latency properties. On finite floats, which are
  modelled by reals, the results are the exact values, without rounding. Data with a nan:
  \<^verbatim>\<open>mean\<close> and \<^verbatim>\<open>percentile\<close> return nan; the sort of \<^verbatim>\<open>median\<close> compares with a nan, so
  that its result depends on the order of the data, and the model gives \<open>NaN\<close> and states
  nothing about such data. The model of \<^verbatim>\<open>percentile\<close> gives \<open>NaN\<close> for data with an
  infinity too and states nothing about it.
\<close>

fun reals_of :: "pyfloat list \<Rightarrow> real list option" where
  "reals_of [] = Some []"
| "reals_of (Finite x # xs) = map_option ((#) x) (reals_of xs)"
| "reals_of (_ # xs) = None"

text \<open>
  \<^verbatim>\<open>statistics.mean\<close>: the sum over the count; StatisticsError on empty data. Where the
  data have a nan or an infinity, \<^verbatim>\<open>_sum\<close> leaves out the finite values and returns the
  float sum of the others.
\<close>

definition is_finite :: "pyfloat \<Rightarrow> bool" where
  "is_finite x = (case x of Finite r \<Rightarrow> True | _ \<Rightarrow> False)"

definition mean :: "pyfloat list \<Rightarrow> py_error + pyfloat" where
  "mean data =
     (if data = [] then Inl StatisticsError
      else case reals_of data of
             None \<Rightarrow>
               Inr (float_div (foldl float_add (Finite 0) (filter (\<lambda>x. \<not> is_finite x) data))
                      (real (length data)))
           | Some xs \<Rightarrow> Inr (Finite (sum_list xs / real (length xs))))"

text \<open>
  \<^verbatim>\<open>statistics.median\<close>: sorts, then takes \<^verbatim>\<open>data[n // 2]\<close> for odd \<^verbatim>\<open>n\<close> and
  \<^verbatim>\<open>(data[i - 1] + data[i]) / 2\<close> with \<^verbatim>\<open>i = n // 2\<close> for even \<^verbatim>\<open>n\<close>.
\<close>

definition median :: "pyfloat list \<Rightarrow> py_error + pyfloat" where
  "median data =
     (if data = [] then Inl StatisticsError
      else if NaN \<in> set data then Inr NaN
      else
        let sorted_data = sort_key float_key data; n = length sorted_data in
        if n mod 2 = 1 then Inr (sorted_data ! (n div 2))
        else let i = n div 2
             in Inr (float_div (float_add (sorted_data ! (i - 1)) (sorted_data ! i)) 2))"

text \<open>
  \<^verbatim>\<open>numpy.percentile(a, q)\<close> with its default method: the virtual index \<^verbatim>\<open>(n - 1) * q / 100\<close>,
  the indexes below and above it (the upper one clipped to the last), and \<^verbatim>\<open>_lerp\<close>
  between the two order statistics with the fractional part as weight. \<^verbatim>\<open>_lerp\<close> takes
  \<^verbatim>\<open>b - (b - a) * (1 - t)\<close> where \<^verbatim>\<open>t >= 0.5\<close> and \<^verbatim>\<open>a + (b - a) * t\<close> elsewhere.
\<close>

definition lerp :: "real \<Rightarrow> real \<Rightarrow> real \<Rightarrow> real" where
  "lerp a b t = (if t \<ge> 1 / 2 then b - (b - a) * (1 - t) else a + (b - a) * t)"

definition percentile :: "pyfloat list \<Rightarrow> real \<Rightarrow> py_error + pyfloat" where
  "percentile a q =
     (if q < 0 \<or> 100 < q then Inl ValueError
      else if a = [] then Inl IndexError
      else case reals_of a of
             None \<Rightarrow> Inr NaN
           | Some xs \<Rightarrow>
               let arr = sort xs;
                   n = length arr;
                   virtual_index = (real n - 1) * (q / 100);
                   previous_index = nat \<lfloor>virtual_index\<rfloor>;
                   next_index = min (previous_index + 1) (n - 1);
                   gamma = virtual_index - real previous_index
               in Inr (Finite (lerp (arr ! previous_index) (arr ! next_index) gamma)))"

text \<open>
  The latency statistics in the words of the specification: the arithmetic mean; the
  middle value of the sorted durations, the average of the two middle values on even
  cardinality; the percentile by linear interpolation between the closest ranks, the ranks
  below and above \<open>(n - 1) p / 100\<close>.
\<close>

definition spec_mean :: "real list \<Rightarrow> real" where
  "spec_mean xs = sum_list xs / real (length xs)"

definition spec_median :: "real list \<Rightarrow> real" where
  "spec_median xs =
     (let s = sort xs; n = length s in (s ! ((n - 1) div 2) + s ! (n div 2)) / 2)"

definition spec_percentile :: "real list \<Rightarrow> real \<Rightarrow> real" where
  "spec_percentile xs p =
     (let s = sort xs;
          rank = (real (length xs) - 1) * p / 100;
          lower = s ! nat \<lfloor>rank\<rfloor>;
          upper = s ! nat \<lceil>rank\<rceil>
      in lower + (rank - real_of_int \<lfloor>rank\<rfloor>) * (upper - lower))"

section \<open>Log entries and the uptime estimator\<close>

record LogEntry =
  timestamp :: datetime
  customer_id :: string
  request_path :: string
  status_code :: int
  duration :: pyfloat

text \<open>
  \<^verbatim>\<open>calculate_uptime_percentage\<close>: the loop over the entries threads \<^verbatim>\<open>downtime\<close> and
  \<^verbatim>\<open>down_start\<close> (\<open>None\<close> while up).
\<close>

definition is_error :: "LogEntry \<Rightarrow> bool" where
  "is_error entry = (500 \<le> status_code entry \<and> status_code entry < 600)"

fun uptime_loop :: "LogEntry list \<Rightarrow> real \<Rightarrow> datetime option \<Rightarrow> real \<times> datetime option" where
  "uptime_loop [] downtime down_start = (downtime, down_start)"
| "uptime_loop (entry # entries) downtime down_start =
     (if is_error entry \<and> down_start = None then
        uptime_loop entries downtime (Some (timestamp entry))
      else if \<not> is_error entry \<and> down_start \<noteq> None then
        uptime_loop entries
          (downtime + total_seconds_between (timestamp entry) (the down_start)) None
      else uptime_loop entries downtime down_start)"

definition calculate_uptime_percentage :: "LogEntry list \<Rightarrow> real" where
  "calculate_uptime_percentage entries =
     (if entries = [] then 100
      else
        let total_duration = 24 * 60 * 60;
            (downtime, down_start) = uptime_loop entries 0 None;
            downtime = (case down_start of
                          None \<Rightarrow> downtime
                        | Some t \<Rightarrow> downtime + total_seconds_between (timestamp (last entries)) t);
            uptime_percentage = ((total_duration - downtime) / total_duration) * 100
        in max 0 (min 100 uptime_percentage))"

text \<open>
  The uptime estimator in the words of the specification: an event is erroring iff its
  status is in [500, 600); a down period starts at the first erroring event, ends at the
  first later event that is not erroring, and contributes the time between the two; a down
  period still open at the end of the bucket contributes the time up to the last event.
\<close>

definition erroring :: "LogEntry \<Rightarrow> bool" where
  "erroring e = (500 \<le> status_code e \<and> status_code e < 600)"

function spec_downtime :: "LogEntry list \<Rightarrow> real" where
  "spec_downtime events =
     (case dropWhile (\<lambda>e. \<not> erroring e) events of
        [] \<Rightarrow> 0
      | d # later \<Rightarrow>
          (case dropWhile erroring later of
             [] \<Rightarrow> total_seconds_between (timestamp (last (d # later))) (timestamp d)
           | r # rest \<Rightarrow>
               total_seconds_between (timestamp r) (timestamp d) + spec_downtime rest))"
  by pat_completeness auto
termination
proof (relation "measure length", goal_cases)
  case 1
  show ?case by simp
next
  case (2 events d later r rest)
  have "length rest < length (dropWhile erroring later)"
    using 2(2) by simp
  also have "\<dots> \<le> length later"
    by (rule length_dropWhile_le)
  also have "\<dots> < length (dropWhile (\<lambda>e. \<not> erroring e) events)"
    using 2(1) by simp
  also have "\<dots> \<le> length events"
    by (rule length_dropWhile_le)
  finally show ?case by simp
qed

declare spec_downtime.simps [simp del]

definition clamp :: "real \<Rightarrow> real \<Rightarrow> real \<Rightarrow> real" where
  "clamp x lo hi = (if x < lo then lo else if hi < x then hi else x)"

definition spec_uptime_percentage :: "LogEntry list \<Rightarrow> real" where
  "spec_uptime_percentage events = clamp (((86400 - spec_downtime events) / 86400) * 100) 0 100"

section \<open>Text of numbers and dates\<close>

text \<open>\<^verbatim>\<open>str\<close> of a non-negative integer, and the zero-padded two digits of \<^verbatim>\<open>%m\<close>, \<^verbatim>\<open>%d\<close>.\<close>

definition digit_char :: "nat \<Rightarrow> char" where
  "digit_char n = char_of (48 + n)"

fun show_nat :: "nat \<Rightarrow> string" where
  "show_nat n = (if n < 10 then [digit_char n] else show_nat (n div 10) @ [digit_char (n mod 10)])"

declare show_nat.simps [simp del]

definition pad2 :: "nat \<Rightarrow> string" where
  "pad2 n = (if n < 10 then [CHR ''0'', digit_char n] else show_nat n)"

text \<open>
  \<^verbatim>\<open>strftime("%Y-%m-%d")\<close>. The C library behind it prints the year without padding.
\<close>

definition strftime_ymd :: "'a date_scheme \<Rightarrow> string" where
  "strftime_ymd d = show_nat (year d) @ ''-'' @ pad2 (month d) @ ''-'' @ pad2 (day d)"

section \<open>Reading dates: \<^verbatim>\<open>datetime.strptime\<close>\<close>

text \<open>
  \<^verbatim>\<open>strptime\<close> turns the format into a regular expression and matches it at the start of
  the text; text left over behind the match is a ValueError, and so is a field tuple that
  the datetime constructor refuses. The directives are these expressions, with the
  alternatives tried in this order:
  \<^verbatim>\<open>%Y  \d\d\d\d\<close>,
  \<^verbatim>\<open>%m  1[0-2]|0[1-9]|[1-9]\<close>,
  \<^verbatim>\<open>%d  3[0-1]|[1-2]\d|0[1-9]|[1-9]| [1-9]\<close>,
  \<^verbatim>\<open>%H  2[0-3]|[0-1]\d|\d\<close>,
  \<^verbatim>\<open>%M  [0-5]\d|\d\<close>,
  \<^verbatim>\<open>%S  6[0-1]|[0-5]\d|\d\<close>;
  a blank of the format is \<^verbatim>\<open>\s+\<close>. In the two formats of the program every directive is
  followed by a character that is no digit or by the end of the text, where a shorter
  alternative cannot succeed after a longer one has matched; so the first alternative that
  matches decides.

  A \<open>char\<close> is a character with a code point below 256. Among these the decimal digits,
  which \<^verbatim>\<open>\d\<close>, \<^verbatim>\<open>int()\<close> and \<^verbatim>\<open>float()\<close> accept, are \<^verbatim>\<open>0\<close> to \<^verbatim>\<open>9\<close>.
\<close>

definition is_digit :: "char \<Rightarrow> bool" where
  "is_digit c = (48 \<le> (of_char c :: nat) \<and> (of_char c :: nat) \<le> 57)"

definition digit_value :: "char \<Rightarrow> nat" where
  "digit_value c = of_char c - 48"

definition in_range :: "char \<Rightarrow> char \<Rightarrow> char \<Rightarrow> bool" where
  "in_range lo hi c = ((of_char lo :: nat) \<le> of_char c \<and> (of_char c :: nat) \<le> of_char hi)"

text \<open>
  Python's whitespace (\<^verbatim>\<open>str.isspace\<close>, \<^verbatim>\<open>\s\<close>) among the code points below 256: the
  controls 9 to 13 and 28 to 31, the blank, the next-line control U+0085 and the no-break
  space U+00A0.
\<close>

definition is_space :: "char \<Rightarrow> bool" where
  "is_space c =
     (let n = (of_char c :: nat)
      in (9 \<le> n \<and> n \<le> 13) \<or> (28 \<le> n \<and> n \<le> 32) \<or> n = 133 \<or> n = 160)"

fun two_chars :: "(char \<Rightarrow> bool) \<Rightarrow> (char \<Rightarrow> bool) \<Rightarrow> string \<Rightarrow> (nat \<times> string) option" where
  "two_chars p q (a # b # rest) =
     (if p a \<and> q b then Some (digit_value a * 10 + digit_value b, rest) else None)"
| "two_chars p q _ = None"

fun one_char :: "(char \<Rightarrow> bool) \<Rightarrow> string \<Rightarrow> (nat \<times> string) option" where
  "one_char p (a # rest) = (if p a then Some (digit_value a, rest) else None)"
| "one_char p [] = None"

fun blank_digit :: "string \<Rightarrow> (nat \<times> string) option" where
  "blank_digit (a # b # rest) =
     (if a = CHR '' '' \<and> in_range CHR ''1'' CHR ''9'' b then Some (digit_value b, rest) else None)"
| "blank_digit _ = None"

definition or_else :: "'a option \<Rightarrow> 'a option \<Rightarrow> 'a option" where
  "or_else x y = (case x of None \<Rightarrow> y | Some v \<Rightarrow> Some v)"

fun re_Y :: "string \<Rightarrow> (nat \<times> string) option" where
  "re_Y (a # b # c # d # rest) =
     (if is_digit a \<and> is_digit b \<and> is_digit c \<and> is_digit d
      then Some (digit_value a * 1000 + digit_value b * 100 + digit_value c * 10 + digit_value d,
                 rest)
      else None)"
| "re_Y _ = None"

definition re_m :: "string \<Rightarrow> (nat \<times> string) option" where
  "re_m s =
     or_else (two_chars ((=) CHR ''1'') (in_range CHR ''0'' CHR ''2'') s)
    (or_else (two_chars ((=) CHR ''0'') (in_range CHR ''1'' CHR ''9'') s)
             (one_char (in_range CHR ''1'' CHR ''9'') s))"

definition re_d :: "string \<Rightarrow> (nat \<times> string) option" where
  "re_d s =
     or_else (two_chars ((=) CHR ''3'') (in_range CHR ''0'' CHR ''1'') s)
    (or_else (two_chars (in_range CHR ''1'' CHR ''2'') is_digit s)
    (or_else (two_chars ((=) CHR ''0'') (in_range CHR ''1'' CHR ''9'') s)
    (or_else (one_char (in_range CHR ''1'' CHR ''9'') s)
             (blank_digit s))))"

definition re_H :: "string \<Rightarrow> (nat \<times> string) option" where
  "re_H s =
     or_else (two_chars ((=) CHR ''2'') (in_range CHR ''0'' CHR ''3'') s)
    (or_else (two_chars (in_range CHR ''0'' CHR ''1'') is_digit s)
             (one_char is_digit s))"

definition re_M :: "string \<Rightarrow> (nat \<times> string) option" where
  "re_M s = or_else (two_chars (in_range CHR ''0'' CHR ''5'') is_digit s) (one_char is_digit s)"

definition re_S :: "string \<Rightarrow> (nat \<times> string) option" where
  "re_S s =
     or_else (two_chars ((=) CHR ''6'') (in_range CHR ''0'' CHR ''1'') s)
    (or_else (two_chars (in_range CHR ''0'' CHR ''5'') is_digit s)
             (one_char is_digit s))"

fun lit :: "char \<Rightarrow> string \<Rightarrow> string option" where
  "lit c (a # rest) = (if a = c then Some rest else None)"
| "lit c [] = None"

fun re_spaces :: "string \<Rightarrow> string option" where
  "re_spaces (a # rest) = (if is_space a then Some (dropWhile is_space rest) else None)"
| "re_spaces [] = None"

text \<open>The match of \<^verbatim>\<open>%Y-%m-%d\<close>: the three numbers and the text behind them.\<close>

definition match_ymd :: "string \<Rightarrow> ((nat \<times> nat \<times> nat) \<times> string) option" where
  "match_ymd s =
     do {
       (y, r) \<leftarrow> re_Y s;
       r \<leftarrow> lit CHR ''-'' r;
       (m, r) \<leftarrow> re_m r;
       r \<leftarrow> lit CHR ''-'' r;
       (d, r) \<leftarrow> re_d r;
       Some ((y, m, d), r)
     }"

definition match_hms :: "string \<Rightarrow> ((nat \<times> nat \<times> nat) \<times> string) option" where
  "match_hms s =
     do {
       (h, r) \<leftarrow> re_H s;
       r \<leftarrow> lit CHR '':'' r;
       (mi, r) \<leftarrow> re_M r;
       r \<leftarrow> lit CHR '':'' r;
       (sec, r) \<leftarrow> re_S r;
       Some ((h, mi, sec), r)
     }"

text \<open>\<^verbatim>\<open>datetime.strptime(s, "%Y-%m-%d %H:%M:%S")\<close>.\<close>

definition strptime :: "string \<Rightarrow> py_error + datetime" where
  "strptime s =
     (case do {
             (ymd, r) \<leftarrow> match_ymd s;
             r \<leftarrow> re_spaces r;
             (hms, r) \<leftarrow> match_hms r;
             Some (ymd, hms, r)
           } of
        None \<Rightarrow> Inl ValueError
      | Some ((y, m, d), (h, mi, sec), r) \<Rightarrow>
          if r \<noteq> [] then Inl ValueError
          else if \<not> (check_date_fields y m d \<and> check_time_fields h mi sec 0) then Inl ValueError
          else Inr \<lparr>year = y, month = m, day = d, hour = h, minute = mi, second = sec,
                    microsecond = 0\<rparr>)"


section \<open>The parser\<close>

text \<open>\<^verbatim>\<open>str.strip()\<close> and \<^verbatim>\<open>str.split()\<close>: the runs of characters that are no whitespace.\<close>

definition strip :: "string \<Rightarrow> string" where
  "strip s = rev (dropWhile is_space (rev (dropWhile is_space s)))"

fun split_from :: "string \<Rightarrow> string \<Rightarrow> string list" where
  "split_from [] word = (if word = [] then [] else [word])"
| "split_from (c # cs) word =
     (if is_space c then (if word = [] then split_from cs [] else word # split_from cs [])
      else split_from cs (word @ [c]))"

definition split :: "string \<Rightarrow> string list" where
  "split s = split_from s []"

text \<open>\<^verbatim>\<open>parts[i]\<close>: IndexError beyond the end.\<close>

definition item :: "'a list \<Rightarrow> nat \<Rightarrow> py_error + 'a" where
  "item xs i = (if i < length xs then Inr (xs ! i) else Inl IndexError)"

text \<open>
  The digits of an integer or float literal: \<^verbatim>\<open>digit (["_"] digit)*\<close>, and their decimal
  value.
\<close>

fun digitpart :: "string \<Rightarrow> bool" where
  "digitpart [] = False"
| "digitpart [c] = is_digit c"
| "digitpart (c # d # r) =
     (is_digit c \<and> (if d = CHR ''_'' then digitpart r else digitpart (d # r)))"

definition decimal_value :: "string \<Rightarrow> nat" where
  "decimal_value s = foldl (\<lambda>n c. 10 * n + digit_value c) 0 (filter is_digit s)"

text \<open>An optional sign in front: whether it is a minus, and the text behind it.\<close>

fun signed :: "string \<Rightarrow> bool \<times> string" where
  "signed (c # r) =
     (if c = CHR ''-'' then (True, r) else if c = CHR ''+'' then (False, r) else (False, c # r))"
| "signed [] = (False, [])"

text \<open>
  \<^verbatim>\<open>int(s)\<close> for text: whitespace around, a sign, digits in base ten. Text with more
  digits than \<^verbatim>\<open>sys.get_int_max_str_digits()\<close>, 4300 unless the interpreter is started with
  another limit, is a ValueError; the sign and the underscores do not count.
\<close>

definition int_max_str_digits :: nat where
  "int_max_str_digits = 4300"

definition py_int :: "string \<Rightarrow> py_error + int" where
  "py_int s =
     (let (minus, body) = signed (strip s) in
      if digitpart body
      then if int_max_str_digits < length (filter is_digit body) then Inl ValueError
           else Inr (if minus then - int (decimal_value body) else int (decimal_value body))
      else Inl ValueError)"

text \<open>
  A float is a binary64 number: 53 bits of significand and a binary exponent from -1022 to
  1023, with the numbers below \<open>2 ^ - 1022\<close> spaced by \<open>2 ^ - 1074\<close>. \<^verbatim>\<open>float()\<close> returns the
  float nearest to the number that the text denotes, the one with the even significand when
  two are equally near, and an infinity from \<open>2 ^ 1024 - 2 ^ 970\<close> on. The number is given
  here by a numerator and a denominator.
\<close>

fun bit_length :: "nat \<Rightarrow> nat" where
  "bit_length n = (if n = 0 then 0 else Suc (bit_length (n div 2)))"

declare bit_length.simps [simp del]

text \<open>The binary exponent of \<open>n / d\<close>, the largest \<open>e\<close> with \<open>2 ^ e \<le> n / d\<close>, for positive \<open>n\<close>, \<open>d\<close>.\<close>

definition binary_exponent :: "nat \<Rightarrow> nat \<Rightarrow> int" where
  "binary_exponent n d =
     (let e = int (bit_length n) - int (bit_length d)
      in if d * 2 ^ nat e \<le> n * 2 ^ nat (- e) then e else e - 1)"

text \<open>The integer nearest to \<open>p / q\<close>, the even one of two that are equally near.\<close>

definition round_half_even :: "nat \<Rightarrow> nat \<Rightarrow> nat" where
  "round_half_even p q =
     (let n = p div q; r = p mod q
      in if 2 * r < q then n else if q < 2 * r then n + 1 else if even n then n else n + 1)"

definition ldexp :: "real \<Rightarrow> int \<Rightarrow> real" where
  "ldexp x e = (if 0 \<le> e then x * 2 ^ nat e else x / 2 ^ nat (- e))"

definition round_double :: "nat \<Rightarrow> nat \<Rightarrow> pyfloat" where
  "round_double n d =
     (if n = 0 then Finite 0
      else
        let e = max (binary_exponent n d) (- 1022);
            ulp = e - 52;
            m = round_half_even (n * 2 ^ nat (- ulp)) (d * 2 ^ nat ulp);
            x = ldexp (real m) ulp
        in if 2 ^ 1024 \<le> x then PosInf else Finite x)"

definition negated :: "pyfloat \<Rightarrow> pyfloat" where
  "negated x = (case x of Finite r \<Rightarrow> Finite (- r) | PosInf \<Rightarrow> NegInf | NegInf \<Rightarrow> PosInf
                | NaN \<Rightarrow> NaN)"

text \<open>
  \<^verbatim>\<open>float(s)\<close> for text: whitespace around, a sign, then \<^verbatim>\<open>inf\<close>, \<^verbatim>\<open>infinity\<close> or \<^verbatim>\<open>nan\<close>
  in any case of letters, or a number \<^verbatim>\<open>[digitpart] "." digitpart | digitpart ["."]\<close> with an
  optional exponent \<^verbatim>\<open>("e" | "E") ["+" | "-"] digitpart\<close>. The value is the float nearest to
  the number; there is no limit on the digits.
\<close>

definition lower :: "char \<Rightarrow> char" where
  "lower c = (let n = (of_char c :: nat) in if 65 \<le> n \<and> n \<le> 90 then char_of (n + 32) else c)"

definition is_exponent_mark :: "char \<Rightarrow> bool" where
  "is_exponent_mark c = (c = CHR ''e'' \<or> c = CHR ''E'')"

definition is_point :: "char \<Rightarrow> bool" where
  "is_point c = (c = CHR ''.'')"

text \<open>
  The mantissa: its value as numerator and denominator, or \<open>None\<close> when it is no number.
\<close>

definition mantissa :: "string \<Rightarrow> (nat \<times> nat) option" where
  "mantissa m =
     (let ip = takeWhile (\<lambda>c. \<not> is_point c) m;
          rest = dropWhile (\<lambda>c. \<not> is_point c) m
      in case rest of
           [] \<Rightarrow> if digitpart ip then Some (decimal_value ip, 1) else None
         | _ # fp \<Rightarrow>
             if (ip = [] \<or> digitpart ip) \<and> (fp = [] \<or> digitpart fp) \<and> \<not> (ip = [] \<and> fp = [])
             then let k = length (filter is_digit fp)
                  in Some (decimal_value ip * 10 ^ k + decimal_value fp, 10 ^ k)
             else None)"

text \<open>The exponent behind the mark: the power of ten to multiply with.\<close>

definition exponent :: "string \<Rightarrow> int option" where
  "exponent e =
     (let (minus, body) = signed e in
      if digitpart body
      then Some (if minus then - int (decimal_value body) else int (decimal_value body))
      else None)"

definition py_float :: "string \<Rightarrow> py_error + pyfloat" where
  "py_float s =
     (let (minus, body) = signed (strip s);
          word = map lower body
      in if word = ''inf'' \<or> word = ''infinity'' then Inr (if minus then NegInf else PosInf)
         else if word = ''nan'' then Inr NaN
         else
           let m = takeWhile (\<lambda>c. \<not> is_exponent_mark c) body;
               rest = dropWhile (\<lambda>c. \<not> is_exponent_mark c) body;
               scale = (case rest of [] \<Rightarrow> Some 0 | _ # e \<Rightarrow> exponent e)
           in case (mantissa m, scale) of
                (Some (n, d), Some k) \<Rightarrow>
                  let x = round_double (n * 10 ^ nat k) (d * 10 ^ nat (- k))
                  in Inr (if minus then negated x else x)
              | _ \<Rightarrow> Inl ValueError)"

text \<open>
  The body of \<^verbatim>\<open>parse_log_line\<close> under its \<^verbatim>\<open>try\<close>: the parts are read in the order of
  the source, and the first exception ends it.
\<close>

definition and_then :: "'e + 'a \<Rightarrow> ('a \<Rightarrow> 'e + 'b) \<Rightarrow> 'e + 'b" where
  "and_then r f = (case r of Inl e \<Rightarrow> Inl e | Inr x \<Rightarrow> f x)"

definition parse_fields :: "string \<Rightarrow> py_error + LogEntry" where
  "parse_fields line =
     (let parts = split (strip line) in
      and_then (item parts 0) (\<lambda>date_text.
      and_then (item parts 1) (\<lambda>time_text.
      and_then (strptime (date_text @ '' '' @ time_text)) (\<lambda>ts.
      and_then (item parts 2) (\<lambda>cust.
      and_then (item parts 3) (\<lambda>path.
      and_then (item parts 4) (\<lambda>status_text.
      and_then (py_int status_text) (\<lambda>status.
      and_then (item parts 5) (\<lambda>duration_text.
      and_then (py_float duration_text) (\<lambda>dur.
        Inr \<lparr>timestamp = ts, customer_id = cust, request_path = path, status_code = status,
             duration = dur\<rparr>))))))))))"

text \<open>
  \<^verbatim>\<open>except (IndexError, ValueError)\<close>: these two and the subclasses of ValueError are
  caught, any other exception leaves the function.
\<close>

definition caught :: "py_error \<Rightarrow> bool" where
  "caught e = (e = IndexError \<or> e = ValueError \<or> e = StatisticsError)"

definition parse_log_line :: "string \<Rightarrow> py_error + LogEntry option" where
  "parse_log_line line =
     (case parse_fields line of
        Inr entry \<Rightarrow> Inr (Some entry)
      | Inl e \<Rightarrow> if caught e then Inr None else Inl e)"

text \<open>
  The steps \<^verbatim>\<open>parse\<close> and \<^verbatim>\<open>valid\<close> of the dataflow: the entries of the lines that parse,
  in the order of the lines.
\<close>

fun valid_entries :: "string list \<Rightarrow> py_error + LogEntry list" where
  "valid_entries [] = Inr []"
| "valid_entries (line # lines) =
     (case parse_log_line line of
        Inl e \<Rightarrow> Inl e
      | Inr parsed \<Rightarrow>
          (case valid_entries lines of
             Inl e \<Rightarrow> Inl e
           | Inr entries \<Rightarrow> Inr (case parsed of None \<Rightarrow> entries | Some x \<Rightarrow> x # entries)))"

text \<open>
  A line is malformed when it has fewer than six fields, or its first two fields are no
  timestamp, or its fifth is no integer, or its sixth is no number.
\<close>

definition malformed :: "string \<Rightarrow> bool" where
  "malformed line =
     (let parts = split (strip line) in
      length parts < 6
      \<or> isl (strptime (parts ! 0 @ '' '' @ parts ! 1))
      \<or> isl (py_int (parts ! 4))
      \<or> isl (py_float (parts ! 5)))"

text \<open>
  The text of a well-formed line: the timestamp as \<^verbatim>\<open>YYYY-MM-DD HH:MM:SS\<close>, two words, the
  digits of the status and the digits of the duration around an optional point.
\<close>

definition two_digits :: "nat \<Rightarrow> string" where
  "two_digits n = [digit_char (n div 10 mod 10), digit_char (n mod 10)]"

definition pad4 :: "nat \<Rightarrow> string" where
  "pad4 n = two_digits (n div 100) @ two_digits (n mod 100)"

definition timestamp_text :: "datetime \<Rightarrow> string" where
  "timestamp_text t =
     pad4 (year t) @ ''-'' @ two_digits (month t) @ ''-'' @ two_digits (day t) @ '' ''
     @ two_digits (hour t) @ '':'' @ two_digits (minute t) @ '':'' @ two_digits (second t)"

definition token :: "string \<Rightarrow> bool" where
  "token w = (w \<noteq> [] \<and> list_all (\<lambda>c. \<not> is_space c) w)"

definition digits :: "string \<Rightarrow> bool" where
  "digits w = (w \<noteq> [] \<and> list_all is_digit w)"

definition fraction :: "string option \<Rightarrow> bool" where
  "fraction fp = (case fp of None \<Rightarrow> True | Some f \<Rightarrow> list_all is_digit f)"

definition duration_text :: "string \<Rightarrow> string option \<Rightarrow> string" where
  "duration_text ip fp = ip @ (case fp of None \<Rightarrow> [] | Some f \<Rightarrow> CHR ''.'' # f)"

definition duration_value :: "string \<Rightarrow> string option \<Rightarrow> real" where
  "duration_value ip fp =
     real (decimal_value ip)
     + (case fp of None \<Rightarrow> 0 | Some f \<Rightarrow> real (decimal_value f) / 10 ^ length f)"

text \<open>
  The number of the duration text as numerator and denominator, and the float that
  \<^verbatim>\<open>float()\<close> reads from it. A number is representable, with significand \<open>m\<close> and exponent
  \<open>u\<close>, when it is the number \<open>m * 2 ^ u\<close> of a float.
\<close>

definition duration_ratio :: "string \<Rightarrow> string option \<Rightarrow> nat \<times> nat" where
  "duration_ratio ip fp =
     (case fp of
        None \<Rightarrow> (decimal_value ip, 1)
      | Some f \<Rightarrow> (decimal_value ip * 10 ^ length f + decimal_value f, 10 ^ length f))"

definition duration_float :: "string \<Rightarrow> string option \<Rightarrow> pyfloat" where
  "duration_float ip fp = (let (n, d) = duration_ratio ip fp in round_double n d)"

definition representable :: "real \<Rightarrow> nat \<Rightarrow> int \<Rightarrow> bool" where
  "representable x m u = (x = real m * 2 powi u \<and> m < 2 ^ 53 \<and> - 1074 \<le> u \<and> u \<le> 971)"

definition line_text ::
    "datetime \<Rightarrow> string \<Rightarrow> string \<Rightarrow> string \<Rightarrow> string \<Rightarrow> string option \<Rightarrow> string" where
  "line_text t cust path status ip fp =
     timestamp_text t @ '' '' @ cust @ '' '' @ path @ '' '' @ status @ '' ''
     @ duration_text ip fp"

section \<open>Daily statistics\<close>

record DailyStats =
  customer_id :: string
  date :: datetime
  successful_requests :: int
  failed_requests :: int
  uptime_percentage :: real
  latencies :: "pyfloat list"

text \<open>The constructor with its defaults; \<^verbatim>\<open>__post_init__\<close> makes the latencies the empty list.\<close>

definition DailyStats_init :: "string \<Rightarrow> datetime \<Rightarrow> DailyStats" where
  "DailyStats_init c d =
     \<lparr>customer_id = c, date = d, successful_requests = 0, failed_requests = 0,
      uptime_percentage = 100, latencies = []\<rparr>"

definition avg_latency :: "DailyStats \<Rightarrow> py_error + pyfloat" where
  "avg_latency self = (if latencies self \<noteq> [] then mean (latencies self) else Inr (Finite 0))"

definition median_latency :: "DailyStats \<Rightarrow> py_error + pyfloat" where
  "median_latency self =
     (if latencies self \<noteq> [] then median (latencies self) else Inr (Finite 0))"

definition p99_latency :: "DailyStats \<Rightarrow> py_error + pyfloat" where
  "p99_latency self =
     (if latencies self \<noteq> [] then percentile (latencies self) 99 else Inr (Finite 0))"

text \<open>
  The record that \<^verbatim>\<open>format_stats\<close> returns, a dict with these eight keys (prefixed here,
  since the keys are the field names of \<open>DailyStats\<close> again).
\<close>

record stats_dict =
  sd_customer_id :: string
  sd_date :: string
  sd_successful_requests :: int
  sd_failed_requests :: int
  sd_uptime_percentage :: real
  sd_avg_latency :: pyfloat
  sd_median_latency :: pyfloat
  sd_p99_latency :: pyfloat

text \<open>The loop of \<^verbatim>\<open>format_stats\<close> over the entries of the window.\<close>

fun count_loop :: "LogEntry list \<Rightarrow> DailyStats \<Rightarrow> DailyStats" where
  "count_loop [] daily_stats = daily_stats"
| "count_loop (entry # entries) daily_stats =
     count_loop entries
       ((if 200 \<le> status_code entry \<and> status_code entry < 300
         then daily_stats\<lparr>successful_requests := successful_requests daily_stats + 1\<rparr>
         else daily_stats\<lparr>failed_requests := failed_requests daily_stats + 1\<rparr>)
        \<lparr>latencies := latencies daily_stats @ [duration entry]\<rparr>)"

text \<open>
  \<^verbatim>\<open>format_stats\<close>, the step behind the window operator: it receives the key and the pair
  of window id and collected entries. \<open>now\<close> is what \<^verbatim>\<open>datetime.now(timezone.utc)\<close>
  returns.
\<close>

definition format_stats :: "datetime \<Rightarrow> string \<times> int \<times> LogEntry list \<Rightarrow> py_error + stats_dict" where
  "format_stats now key_stats =
     (let (key, stats) = key_stats;
          (offset, entries) = stats;
          daily_stats = DailyStats_init
            (if entries \<noteq> [] then LogEntry.customer_id (hd entries) else [])
            (if entries \<noteq> [] then timestamp (hd entries) else now);
          daily_stats = daily_stats\<lparr>uptime_percentage := calculate_uptime_percentage entries\<rparr>;
          daily_stats = count_loop entries daily_stats
      in case avg_latency daily_stats of
           Inl e \<Rightarrow> Inl e
         | Inr avg \<Rightarrow>
        (case median_latency daily_stats of
           Inl e \<Rightarrow> Inl e
         | Inr med \<Rightarrow>
        (case p99_latency daily_stats of
           Inl e \<Rightarrow> Inl e
         | Inr p99 \<Rightarrow>
             Inr \<lparr>sd_customer_id = customer_id daily_stats,
                  sd_date = strftime_ymd (date daily_stats),
                  sd_successful_requests = successful_requests daily_stats,
                  sd_failed_requests = failed_requests daily_stats,
                  sd_uptime_percentage = uptime_percentage daily_stats,
                  sd_avg_latency = avg,
                  sd_median_latency = med,
                  sd_p99_latency = p99\<rparr>)))"







definition is_success :: "LogEntry \<Rightarrow> bool" where
  "is_success e = (200 \<le> status_code e \<and> status_code e < 300)"

text \<open>
  The downtime that \<^verbatim>\<open>calculate_uptime_percentage\<close> has counted when its loop ends in
  state \<open>st\<close>, with \<open>l\<close> the timestamp of the last entry.
\<close>

definition total_down :: "datetime \<Rightarrow> real \<times> datetime option \<Rightarrow> real" where
  "total_down l st =
     (case snd st of None \<Rightarrow> fst st | Some t \<Rightarrow> fst st + total_seconds_between l t)"

text \<open>The \<^verbatim>\<open>daily_stats\<close> object of \<^verbatim>\<open>format_stats\<close> when its loop has ended.\<close>

definition bucket_stats :: "datetime \<Rightarrow> LogEntry list \<Rightarrow> DailyStats" where
  "bucket_stats now entries =
     count_loop entries
       ((DailyStats_init (if entries \<noteq> [] then LogEntry.customer_id (hd entries) else [])
           (if entries \<noteq> [] then timestamp (hd entries) else now))
        \<lparr>uptime_percentage := calculate_uptime_percentage entries\<rparr>)"

section \<open>Storage and the sink\<close>

text \<open>
  A row of the table \<^verbatim>\<open>customerdailystats\<close> (the class \<open>CustomerDailyStats\<close>; its
  attributes carry the prefix \<open>row_\<close> here), and the table with the sequence that numbers
  new rows.
\<close>

record CustomerDailyStats =
  row_id :: nat
  row_customer_id :: string
  row_date :: date
  row_successful_requests :: int
  row_failed_requests :: int
  row_uptime_percentage :: real
  row_avg_latency :: pyfloat
  row_median_latency :: pyfloat
  row_p99_latency :: pyfloat

record database =
  rows :: "CustomerDailyStats list"
  next_id :: nat









section \<open>The read endpoint\<close>

datatype http_error = HTTPException nat string

text \<open>
  \<^verbatim>\<open>get_customer_stats\<close>: the rows of the customer, of those the rows from the date on when
  \<^verbatim>\<open>from\<close> is given (a date is always true in a condition), and 404 when none is left.
\<close>

definition get_customer_stats ::
    "database \<Rightarrow> string \<Rightarrow> date option \<Rightarrow> http_error + CustomerDailyStats list" where
  "get_customer_stats db cust_id from_date =
     (let query = filter (\<lambda>r. row_customer_id r = cust_id) (rows db);
          query = (case from_date of
                     Some f \<Rightarrow> filter (\<lambda>r. date_key f \<le> date_key (row_date r)) query
                   | None \<Rightarrow> query);
          results = query
      in if results = [] then Inl (HTTPException 404 ''No stats found for customer'')
         else Inr results)"

text \<open>A row passes the filters of the endpoint.\<close>

definition matches :: "string \<Rightarrow> date option \<Rightarrow> CustomerDailyStats \<Rightarrow> bool" where
  "matches cust_id from_date r =
     (row_customer_id r = cust_id
      \<and> (case from_date of Some f \<Rightarrow> date_key f \<le> date_key (row_date r) | None \<Rightarrow> True))"

section \<open>Example data\<close>

definition entry_at :: "nat \<Rightarrow> nat \<Rightarrow> nat \<Rightarrow> string \<Rightarrow> int \<Rightarrow> real \<Rightarrow> LogEntry" where
  "entry_at h mi s c sc dur =
     \<lparr>timestamp = \<lparr>year = 2024, month = 10, day = 26, hour = h, minute = mi, second = s,
                    microsecond = 0\<rparr>,
      customer_id = c, request_path = ''/api/v1/resource1'', status_code = sc,
      duration = Finite dur\<rparr>"

text \<open>Scenario A and scenario B of the specification, and scenario B out of order.\<close>

definition scenario_A :: "LogEntry list" where
  "scenario_A =
     [entry_at 3 5 0 ''cust_1'' 200 0.5, entry_at 3 6 0 ''cust_1'' 200 0.75,
      entry_at 3 7 0 ''cust_1'' 403 1]"

definition scenario_B :: "LogEntry list" where
  "scenario_B =
     [entry_at 3 9 0 ''cust_2'' 200 1, entry_at 3 9 1 ''cust_2'' 500 1,
      entry_at 3 9 2 ''cust_2'' 503 1, entry_at 3 9 3 ''cust_2'' 200 1]"


definition noon :: datetime where
  "noon = \<lparr>year = 2024, month = 11, day = 7, hour = 12, minute = 0, second = 0,
           microsecond = 0\<rparr>"


definition row_A :: CustomerDailyStats where
  "row_A =
     \<lparr>row_id = 1, row_customer_id = ''cust_1'',
      row_date = \<lparr>year = 2024, month = 10, day = 26\<rparr>, row_successful_requests = 2,
      row_failed_requests = 1, row_uptime_percentage = 100, row_avg_latency = Finite 0.75,
      row_median_latency = Finite 0.75, row_p99_latency = Finite 0.995\<rparr>"


definition db_A :: database where
  "db_A = \<lparr>rows = [row_A], next_id = 2\<rparr>"

definition oct_27 :: date where
  "oct_27 = \<lparr>year = 2024, month = 10, day = 27\<rparr>"

definition line_extra :: string where
  "line_extra = ''2024-10-26 03:05:00 cust_1 /api/v1/resource2 200 0.5 extra''"

definition line_invalid :: string where
  "line_invalid = ''invalid log format''"

definition t_A :: datetime where
  "t_A = \<lparr>year = 2024, month = 10, day = 26, hour = 3, minute = 5, second = 0, microsecond = 0\<rparr>"

section \<open>The uptime estimator is the specified state machine\<close>

lemma is_error_erroring: "is_error = erroring"
  by (simp add: fun_eq_iff is_error_def erroring_def)

lemma uptime_loop_skip_up:
  "uptime_loop es dt None = uptime_loop (dropWhile (\<lambda>e. \<not> erroring e) es) dt None"
  by (induction es) (simp_all add: is_error_erroring)

lemma uptime_loop_skip_down:
  "uptime_loop es dt (Some t) = uptime_loop (dropWhile erroring es) dt (Some t)"
  by (induction es) (simp_all add: is_error_erroring)

lemma last_dropWhile: "dropWhile P xs = y # ys \<Longrightarrow> last xs = last (y # ys)"
  by (metis takeWhile_dropWhile_id last_appendR list.distinct(1))

lemma uptime_loop_spec:
  "(es \<noteq> [] \<Longrightarrow> l = timestamp (last es)) \<Longrightarrow>
   total_down l (uptime_loop es dt None) = dt + spec_downtime es"
proof (induction es arbitrary: dt rule: spec_downtime.induct)
  case (1 events)
  show ?case
  proof (cases "dropWhile (\<lambda>e. \<not> erroring e) events")
    case Nil
    have "uptime_loop events dt None = (dt, None)"
      by (subst uptime_loop_skip_up) (simp only: Nil uptime_loop.simps)
    moreover have "spec_downtime events = 0"
      by (subst spec_downtime.simps) (simp only: Nil list.case)
    ultimately show ?thesis
      by (simp add: total_down_def)
  next
    case outer: (Cons d later)
    then have d: "erroring d"
      by (metis dropWhile_eq_Cons_conv)
    have ne: "events \<noteq> []" using outer by auto
    have l: "l = timestamp (last (d # later))"
      using 1(2) [OF ne] last_dropWhile [OF outer] by simp
    have "uptime_loop events dt None = uptime_loop (d # later) dt None"
      by (subst uptime_loop_skip_up) (simp only: outer)
    also have "\<dots> = uptime_loop later dt (Some (timestamp d))"
      using d by (simp add: is_error_erroring)
    also have "\<dots> = uptime_loop (dropWhile erroring later) dt (Some (timestamp d))"
      by (rule uptime_loop_skip_down)
    finally have step:
      "uptime_loop events dt None
       = uptime_loop (dropWhile erroring later) dt (Some (timestamp d))" .
    show ?thesis
    proof (cases "dropWhile erroring later")
      case Nil
      have "uptime_loop events dt None = (dt, Some (timestamp d))"
        unfolding step by (simp only: Nil uptime_loop.simps)
      moreover have "spec_downtime events
          = total_seconds_between (timestamp (last (d # later))) (timestamp d)"
        by (subst spec_downtime.simps) (simp only: outer Nil list.case)
      ultimately show ?thesis
        unfolding l by (simp add: total_down_def)
    next
      case inner: (Cons r rest)
      then have r: "\<not> erroring r"
        by (metis dropWhile_eq_Cons_conv)
      have "later \<noteq> []"
        using inner by auto
      then have lr: "rest \<noteq> [] \<Longrightarrow> l = timestamp (last rest)"
        using l last_dropWhile [OF inner] by simp
      have "uptime_loop events dt None
            = uptime_loop rest (dt + total_seconds_between (timestamp r) (timestamp d)) None"
        unfolding step inner using r by (simp add: is_error_erroring)
      then have "total_down l (uptime_loop events dt None)
            = dt + total_seconds_between (timestamp r) (timestamp d) + spec_downtime rest"
        using "1.IH" [OF outer inner lr] by simp
      moreover have "spec_downtime events
            = total_seconds_between (timestamp r) (timestamp d) + spec_downtime rest"
        by (subst spec_downtime.simps) (simp only: outer inner list.case)
      ultimately show ?thesis by simp
    qed
  qed
qed

lemma clamp_max_min: "max 0 (min 100 x) = clamp x 0 100"
  by (simp add: clamp_def max_def min_def)

lemma calculate_uptime_percentage_spec:
  assumes "entries \<noteq> []"
  shows "calculate_uptime_percentage entries = spec_uptime_percentage entries"
proof -
  obtain dt ds where st: "uptime_loop entries 0 None = (dt, ds)"
    by (cases "uptime_loop entries 0 None")
  have "total_down (timestamp (last entries)) (dt, ds) = spec_downtime entries"
    using uptime_loop_spec [of entries "timestamp (last entries)" 0] st by simp
  then have "(case ds of None \<Rightarrow> dt
              | Some t \<Rightarrow> dt + total_seconds_between (timestamp (last entries)) t)
             = spec_downtime entries"
    by (cases ds) (simp_all add: total_down_def)
  then show ?thesis
    using assms st
    by (simp add: calculate_uptime_percentage_def spec_uptime_percentage_def clamp_max_min)
qed

lemma total_seconds_between_add:
  "total_seconds_between a c = total_seconds_between a b + total_seconds_between b c"
  by (simp add: total_seconds_between_def field_simps)

lemma scenario_B_uptime:
  assumes "status_code e0 = 200" "status_code e1 = 500" "status_code e2 = 503"
    "status_code e3 = 200"
    and "total_seconds_between (timestamp e1) (timestamp e0) = 1"
    and "total_seconds_between (timestamp e2) (timestamp e0) = 2"
    and "total_seconds_between (timestamp e3) (timestamp e0) = 3"
  shows "calculate_uptime_percentage [e0, e1, e2, e3] = ((86400 - 2) / 86400) * 100"
proof -
  have "total_seconds_between (timestamp e3) (timestamp e1) = 2"
    using total_seconds_between_add [of "timestamp e3" "timestamp e0" "timestamp e1"]
      total_seconds_between_add [of "timestamp e1" "timestamp e1" "timestamp e0"] assms(5,7)
    by (simp add: total_seconds_between_def)
  then show ?thesis
    using assms(1-4) by (simp add: calculate_uptime_percentage_def is_error_def)
qed

lemma entry_at_seconds:
  "total_seconds_between (timestamp (entry_at h mi s c sc d)) (timestamp (entry_at h mi s' c' sc' d'))
   = real s - real s'"
  by (simp add: total_seconds_between_def entry_at_def toordinal_def day_seconds_def)

lemma entry_at_status: "status_code (entry_at h mi s c sc d) = sc"
  by (simp add: entry_at_def)

text \<open>
  C1. On a non-empty list of events \<^verbatim>\<open>calculate_uptime_percentage\<close> returns the clamped
  percentage of the day that is left when the downtime of the specified machine is taken
  away: a down period opens at the first erroring event, closes at the first later event
  that is not erroring and counts the time between them, and one still open at the end
  counts up to the last event. For events 200 at T, 500 at T+1s, 503 at T+2s and 200 at
  T+3s the result is ((86400 - 2) / 86400) * 100.
\<close>

theorem calculate_uptime_percentage_state_machine:
  "(entries \<noteq> [] \<longrightarrow>
      calculate_uptime_percentage entries
      = clamp (((86400 - spec_downtime entries) / 86400) * 100) 0 100)
   \<and> (status_code e0 = 200 \<and> status_code e1 = 500 \<and> status_code e2 = 503 \<and> status_code e3 = 200
       \<and> total_seconds_between (timestamp e1) (timestamp e0) = 1
       \<and> total_seconds_between (timestamp e2) (timestamp e0) = 2
       \<and> total_seconds_between (timestamp e3) (timestamp e0) = 3 \<longrightarrow>
      calculate_uptime_percentage [e0, e1, e2, e3] = ((86400 - 2) / 86400) * 100)"
  using calculate_uptime_percentage_spec [of entries]
    scenario_B_uptime [of e0 e1 e2 e3]
  by (simp add: spec_uptime_percentage_def)

theorem calculate_uptime_percentage_state_machine_witness:
  "scenario_B \<noteq> []
   \<and> status_code (entry_at 3 9 1 ''cust_2'' 500 1) = 500
   \<and> total_seconds_between (timestamp (entry_at 3 9 3 ''cust_2'' 200 1))
        (timestamp (entry_at 3 9 0 ''cust_2'' 200 1)) = 3
   \<and> spec_downtime scenario_B = 2
   \<and> calculate_uptime_percentage scenario_B
      = clamp (((86400 - spec_downtime scenario_B) / 86400) * 100) 0 100
   \<and> calculate_uptime_percentage scenario_B = ((86400 - 2) / 86400) * 100"
proof -
  have sd: "spec_downtime scenario_B = 2"
    by (simp add: scenario_B_def spec_downtime.simps erroring_def entry_at_seconds
        entry_at_status)
  show ?thesis
    using calculate_uptime_percentage_state_machine
      [of scenario_B "entry_at 3 9 0 ''cust_2'' 200 1" "entry_at 3 9 1 ''cust_2'' 500 1"
        "entry_at 3 9 2 ''cust_2'' 503 1" "entry_at 3 9 3 ''cust_2'' 200 1"]
      sd
    by (simp add: scenario_B_def entry_at_seconds entry_at_status)
qed

section \<open>Buckets without server errors\<close>

lemma uptime_loop_no_error:
  "\<forall>e \<in> set entries. \<not> is_error e \<Longrightarrow> uptime_loop entries downtime None = (downtime, None)"
  by (induction entries) simp_all

text \<open>
  C5. A bucket none of whose events has a status code in [500, 600) has an uptime
  percentage of exactly 100.
\<close>

theorem no_5xx_uptime_100:
  "\<forall>e \<in> set entries. \<not> (500 \<le> status_code e \<and> status_code e < 600)
   \<Longrightarrow> calculate_uptime_percentage entries = 100"
  using uptime_loop_no_error [of entries 0]
  by (simp add: calculate_uptime_percentage_def is_error_def)

theorem no_5xx_uptime_100_witness:
  "list_all (\<lambda>e. \<not> (500 \<le> status_code e \<and> status_code e < 600)) scenario_A
   \<and> calculate_uptime_percentage scenario_A = 100"
proof -
  have "\<forall>e \<in> set scenario_A. \<not> (500 \<le> status_code e \<and> status_code e < 600)"
    by (simp add: scenario_A_def entry_at_status)
  then show ?thesis
    using no_5xx_uptime_100 [of scenario_A] by (simp add: list_all_iff)
qed

section \<open>What \<^verbatim>\<open>format_stats\<close> emits\<close>

lemma reals_of_Finite [simp]: "reals_of (map Finite xs) = Some xs"
  by (induction xs) simp_all

lemma mean_total: "data \<noteq> [] \<Longrightarrow> \<exists>v. mean data = Inr v"
  by (simp add: mean_def split: option.splits)

lemma median_total: "data \<noteq> [] \<Longrightarrow> \<exists>v. median data = Inr v"
  by (simp add: median_def Let_def split: option.splits)

lemma percentile_99_total: "data \<noteq> [] \<Longrightarrow> \<exists>v. percentile data 99 = Inr v"
  by (simp add: percentile_def Let_def split: option.splits)

lemma avg_latency_total: "\<exists>v. avg_latency ds = Inr v"
  using mean_total [of "latencies ds"] by (simp add: avg_latency_def)

lemma median_latency_total: "\<exists>v. median_latency ds = Inr v"
  using median_total [of "latencies ds"] by (simp add: median_latency_def)

lemma p99_latency_total: "\<exists>v. p99_latency ds = Inr v"
  using percentile_99_total [of "latencies ds"] by (simp add: p99_latency_def)

lemma count_loop_fields:
  "customer_id (count_loop es ds) = customer_id ds"
  "date (count_loop es ds) = date ds"
  "uptime_percentage (count_loop es ds) = uptime_percentage ds"
  "latencies (count_loop es ds) = latencies ds @ map duration es"
  "successful_requests (count_loop es ds)
   = successful_requests ds + int (length (filter is_success es))"
  "failed_requests (count_loop es ds)
   = failed_requests ds + int (length (filter (\<lambda>e. \<not> is_success e) es))"
  by (induction es arbitrary: ds; simp add: is_success_def)+

lemma format_stats_Inr:
  "\<exists>avg med p99.
     avg_latency (bucket_stats now entries) = Inr avg \<and>
     median_latency (bucket_stats now entries) = Inr med \<and>
     p99_latency (bucket_stats now entries) = Inr p99 \<and>
     format_stats now (key, offset, entries) =
     Inr \<lparr>sd_customer_id = (if entries \<noteq> [] then LogEntry.customer_id (hd entries) else []),
          sd_date = strftime_ymd (if entries \<noteq> [] then timestamp (hd entries) else now),
          sd_successful_requests = int (length (filter is_success entries)),
          sd_failed_requests = int (length (filter (\<lambda>e. \<not> is_success e) entries)),
          sd_uptime_percentage = calculate_uptime_percentage entries,
          sd_avg_latency = avg, sd_median_latency = med, sd_p99_latency = p99\<rparr>"
proof -
  obtain avg where a: "avg_latency (bucket_stats now entries) = Inr avg"
    using avg_latency_total by blast
  obtain med where m: "median_latency (bucket_stats now entries) = Inr med"
    using median_latency_total by blast
  obtain p99 where p: "p99_latency (bucket_stats now entries) = Inr p99"
    using p99_latency_total by blast
  have "format_stats now (key, offset, entries) =
     Inr \<lparr>sd_customer_id = (if entries \<noteq> [] then LogEntry.customer_id (hd entries) else []),
          sd_date = strftime_ymd (if entries \<noteq> [] then timestamp (hd entries) else now),
          sd_successful_requests = int (length (filter is_success entries)),
          sd_failed_requests = int (length (filter (\<lambda>e. \<not> is_success e) entries)),
          sd_uptime_percentage = calculate_uptime_percentage entries,
          sd_avg_latency = avg, sd_median_latency = med, sd_p99_latency = p99\<rparr>"
    using a m p
    by (simp add: format_stats_def bucket_stats_def Let_def count_loop_fields DailyStats_init_def)
  then show ?thesis using a m p by blast
qed


lemma length_filter_split:
  "length (filter P xs) + length (filter (\<lambda>x. \<not> P x) xs) = length xs"
  by (induction xs) simp_all










text \<open>
  C4. \<^verbatim>\<open>format_stats\<close> always returns a record; in it the successful requests are the
  entries with 200 \<open>\<le>\<close> status < 300, the failed requests are all the others, and the two
  counts add up to the number of entries of the bucket.
\<close>

theorem format_stats_counts:
  "\<exists>sd. format_stats now (key, offset, entries) = Inr sd
     \<and> sd_successful_requests sd
       = int (length (filter (\<lambda>e. 200 \<le> status_code e \<and> status_code e < 300) entries))
     \<and> sd_failed_requests sd
       = int (length (filter (\<lambda>e. \<not> (200 \<le> status_code e \<and> status_code e < 300)) entries))
     \<and> sd_successful_requests sd + sd_failed_requests sd = int (length entries)"
proof -
  obtain avg med p99 where "format_stats now (key, offset, entries) =
     Inr \<lparr>sd_customer_id = (if entries \<noteq> [] then LogEntry.customer_id (hd entries) else []),
          sd_date = strftime_ymd (if entries \<noteq> [] then timestamp (hd entries) else now),
          sd_successful_requests = int (length (filter is_success entries)),
          sd_failed_requests = int (length (filter (\<lambda>e. \<not> is_success e) entries)),
          sd_uptime_percentage = calculate_uptime_percentage entries,
          sd_avg_latency = avg, sd_median_latency = med, sd_p99_latency = p99\<rparr>"
    using format_stats_Inr by blast
  then show ?thesis
    using length_filter_split [of is_success entries]
    by (simp add: is_success_def [abs_def])
qed

theorem format_stats_counts_witness:
  "map_sum id sd_successful_requests (format_stats noon (''cust_1_2024-10-26'', 0, scenario_A))
     = Inr 2
   \<and> map_sum id sd_failed_requests (format_stats noon (''cust_1_2024-10-26'', 0, scenario_A))
     = Inr 1
   \<and> int (length scenario_A) = 3"
proof -
  have "length (filter (\<lambda>e. 200 \<le> status_code e \<and> status_code e < 300) scenario_A) = 2"
    "length (filter (\<lambda>e. \<not> (200 \<le> status_code e \<and> status_code e < 300)) scenario_A) = 1"
    "length scenario_A = 3"
    by (simp_all add: scenario_A_def entry_at_status)
  then show ?thesis
    using format_stats_counts [of noon "''cust_1_2024-10-26''" 0 scenario_A] by auto
qed

section \<open>Latency statistics\<close>

lemma float_key_Finite [simp]: "float_key (Finite r) = (0, r)"
  by (simp add: float_key_def)

lemma insort_key_Finite:
  "insort_key float_key (Finite x) (map Finite ys) = map Finite (insort x ys)"
  by (induction ys) simp_all

lemma sort_key_Finite: "sort_key float_key (map Finite xs) = map Finite (sort xs)"
  by (induction xs) (simp_all add: insort_key_Finite)

lemma median_Finite:
  assumes "xs \<noteq> []"
  shows "median (map Finite xs)
         = (let sorted_data = sort xs; n = length sorted_data in
            if n mod 2 = 1 then Inr (Finite (sorted_data ! (n div 2)))
            else let i = n div 2
                 in Inr (Finite ((sorted_data ! (i - 1) + sorted_data ! i) / 2)))"
proof -
  have "NaN \<notin> set (map Finite xs)"
    by auto
  moreover have "length xs div 2 < length xs" "length xs div 2 - 1 < length xs"
    using assms by (cases xs; simp)+
  ultimately show ?thesis
    using assms
    by (simp add: median_def sort_key_Finite Let_def float_div_def del: set_map)
qed

text \<open>
  With an infinity in the data: the mean is that infinity, and the median takes it for the
  largest value.
\<close>

lemma mean_with_infinity: "mean [PosInf, Finite 1] = Inr PosInf"
  by (simp add: mean_def is_finite_def float_div_def)

lemma median_with_infinity:
  "median [Finite 1, PosInf] = Inr PosInf"
  "median [PosInf, Finite 1, Finite 2] = Inr (Finite 2)"
  by (simp_all add: median_def float_key_def float_div_def Let_def)

lemma spec_median_eq:
  assumes "xs \<noteq> []"
  shows "median (map Finite xs) = Inr (Finite (spec_median xs))"
proof (cases "length xs mod 2 = 1")
  case True
  then have "(length xs - 1) div 2 = length xs div 2"
    by presburger
  then show ?thesis
    using assms True by (simp add: median_Finite spec_median_def Let_def)
next
  case False
  then have "(length xs - 1) div 2 = length xs div 2 - 1"
    using assms by (cases xs) (simp, simp, presburger)
  then show ?thesis
    using assms False by (simp add: median_Finite spec_median_def Let_def)
qed

lemma lerp_linear: "lerp a b t = a + t * (b - a)"
  by (simp add: lerp_def algebra_simps)

lemma spec_percentile_eq:
  assumes "xs \<noteq> []" "0 \<le> q" "q \<le> 100"
  shows "percentile (map Finite xs) q = Inr (Finite (spec_percentile xs q))"
proof -
  define n where "n = length xs"
  define h where "h = (real n - 1) * q / 100"
  have n: "1 \<le> n" using assms(1) by (cases xs) (simp_all add: n_def)
  have h0: "0 \<le> h" using n assms(2) by (simp add: h_def)
  have "(real n - 1) * (q / 100) \<le> (real n - 1) * 1"
    using n assms(2,3) by (intro mult_left_mono) simp_all
  then have hn: "h \<le> real n - 1" by (simp add: h_def)
  have fl: "real (nat \<lfloor>h\<rfloor>) = real_of_int \<lfloor>h\<rfloor>"
    using h0 by simp
  have *: "lerp (sort xs ! nat \<lfloor>h\<rfloor>) (sort xs ! min (nat \<lfloor>h\<rfloor> + 1) (n - 1))
             (h - real (nat \<lfloor>h\<rfloor>))
      = sort xs ! nat \<lfloor>h\<rfloor>
        + (h - real_of_int \<lfloor>h\<rfloor>) * (sort xs ! nat \<lceil>h\<rceil> - sort xs ! nat \<lfloor>h\<rfloor>)"
  proof (cases "h = real_of_int \<lfloor>h\<rfloor>")
    case True
    then show ?thesis by (simp add: lerp_linear fl)
  next
    case False
    then have c: "\<lceil>h\<rceil> = \<lfloor>h\<rfloor> + 1"
      by (metis ceiling_altdef)
    have "real_of_int \<lfloor>h\<rfloor> < h" using False by linarith
    then have "real_of_int \<lfloor>h\<rfloor> < real n - 1" using hn by linarith
    then have "\<lfloor>h\<rfloor> < int n - 1" by linarith
    then have "nat \<lfloor>h\<rfloor> + 1 \<le> n - 1" using h0 n by linarith
    moreover have "nat \<lceil>h\<rceil> = nat \<lfloor>h\<rfloor> + 1"
      using c h0 by (simp add: nat_add_distrib)
    ultimately show ?thesis
      by (simp add: lerp_linear fl min_def)
  qed
  show ?thesis
    using assms * unfolding h_def n_def
    by (simp add: percentile_def spec_percentile_def Let_def)
qed

text \<open>
  C3. For non-empty finite durations, \<open>avg_latency\<close> is the arithmetic mean,
  \<open>median_latency\<close> the middle value of the sorted durations (the average of the two
  middle values on even cardinality) and \<open>p99_latency\<close> the 99th percentile by linear
  interpolation between the closest ranks. Durations 0.5, 1.5, 1.6 give mean 1.2, median
  1.5 and p99 1.598; durations 0.5, 0.75, 1.0 give mean 0.75, median 0.75 and p99 0.995.
\<close>

theorem latency_statistics:
  "(xs \<noteq> [] \<longrightarrow>
      avg_latency (ds\<lparr>latencies := map Finite xs\<rparr>) = Inr (Finite (spec_mean xs))
      \<and> median_latency (ds\<lparr>latencies := map Finite xs\<rparr>) = Inr (Finite (spec_median xs))
      \<and> p99_latency (ds\<lparr>latencies := map Finite xs\<rparr>) = Inr (Finite (spec_percentile xs 99)))
   \<and> avg_latency (ds\<lparr>latencies := [Finite 0.5, Finite 1.5, Finite 1.6]\<rparr>) = Inr (Finite 1.2)
   \<and> median_latency (ds\<lparr>latencies := [Finite 0.5, Finite 1.5, Finite 1.6]\<rparr>) = Inr (Finite 1.5)
   \<and> p99_latency (ds\<lparr>latencies := [Finite 0.5, Finite 1.5, Finite 1.6]\<rparr>) = Inr (Finite 1.598)
   \<and> avg_latency (ds\<lparr>latencies := [Finite 0.5, Finite 0.75, Finite 1.0]\<rparr>) = Inr (Finite 0.75)
   \<and> median_latency (ds\<lparr>latencies := [Finite 0.5, Finite 0.75, Finite 1.0]\<rparr>)
     = Inr (Finite 0.75)
   \<and> p99_latency (ds\<lparr>latencies := [Finite 0.5, Finite 0.75, Finite 1.0]\<rparr>)
     = Inr (Finite 0.995)"
proof -
  have "xs \<noteq> [] \<Longrightarrow>
      avg_latency (ds\<lparr>latencies := map Finite xs\<rparr>) = Inr (Finite (spec_mean xs))
      \<and> median_latency (ds\<lparr>latencies := map Finite xs\<rparr>) = Inr (Finite (spec_median xs))
      \<and> p99_latency (ds\<lparr>latencies := map Finite xs\<rparr>) = Inr (Finite (spec_percentile xs 99))"
    using spec_median_eq [of xs] spec_percentile_eq [of xs 99]
    by (simp add: avg_latency_def median_latency_def p99_latency_def mean_def spec_mean_def)
  moreover have
    "avg_latency (ds\<lparr>latencies := [Finite 0.5, Finite 1.5, Finite 1.6]\<rparr>) = Inr (Finite 1.2)"
    "median_latency (ds\<lparr>latencies := [Finite 0.5, Finite 1.5, Finite 1.6]\<rparr>) = Inr (Finite 1.5)"
    "p99_latency (ds\<lparr>latencies := [Finite 0.5, Finite 1.5, Finite 1.6]\<rparr>) = Inr (Finite 1.598)"
    "avg_latency (ds\<lparr>latencies := [Finite 0.5, Finite 0.75, Finite 1.0]\<rparr>) = Inr (Finite 0.75)"
    "median_latency (ds\<lparr>latencies := [Finite 0.5, Finite 0.75, Finite 1.0]\<rparr>)
     = Inr (Finite 0.75)"
    "p99_latency (ds\<lparr>latencies := [Finite 0.5, Finite 0.75, Finite 1.0]\<rparr>)
     = Inr (Finite 0.995)"
    using median_Finite [of "[0.5, 1.5, 1.6]"] median_Finite [of "[0.5, 0.75, 1.0]"]
    by (simp_all add: avg_latency_def median_latency_def p99_latency_def mean_def
        percentile_def lerp_def Let_def)
  ultimately show ?thesis by blast
qed

theorem latency_statistics_witness:
  "[0.5, 1.5, 1.6 :: real] \<noteq> []
   \<and> spec_mean [0.5, 1.5, 1.6] = 1.2
   \<and> spec_median [0.5, 1.5, 1.6] = 1.5
   \<and> spec_percentile [0.5, 1.5, 1.6] 99 = 1.598
   \<and> p99_latency ((DailyStats_init ''cust_1'' noon)\<lparr>latencies := map Finite [0.5, 1.5, 1.6]\<rparr>)
     = Inr (Finite (spec_percentile [0.5, 1.5, 1.6] 99))"
proof -
  have "spec_mean [0.5, 1.5, 1.6] = 1.2" "spec_median [0.5, 1.5, 1.6] = 1.5"
    "spec_percentile [0.5, 1.5, 1.6] 99 = 1.598"
    by (simp_all add: spec_mean_def spec_median_def spec_percentile_def Let_def)
  then show ?thesis
    using latency_statistics [of "[0.5, 1.5, 1.6]" "DailyStats_init ''cust_1'' noon"]
    by simp
qed

text \<open>
  C10. Without recorded latencies the three latency properties are 0.0: for any
  \<open>DailyStats\<close> whose latencies are empty, for a freshly constructed one, and in the record
  that \<^verbatim>\<open>format_stats\<close> emits for a window without entries. No exception of the statistics
  functions on empty data gets out.
\<close>

theorem empty_latencies_zero:
  "avg_latency (ds\<lparr>latencies := []\<rparr>) = Inr (Finite 0)
   \<and> median_latency (ds\<lparr>latencies := []\<rparr>) = Inr (Finite 0)
   \<and> p99_latency (ds\<lparr>latencies := []\<rparr>) = Inr (Finite 0)
   \<and> avg_latency (DailyStats_init c d) = Inr (Finite 0)
   \<and> median_latency (DailyStats_init c d) = Inr (Finite 0)
   \<and> p99_latency (DailyStats_init c d) = Inr (Finite 0)
   \<and> format_stats now (key, offset, []) =
       Inr \<lparr>sd_customer_id = [], sd_date = strftime_ymd now, sd_successful_requests = 0,
            sd_failed_requests = 0, sd_uptime_percentage = 100, sd_avg_latency = Finite 0,
            sd_median_latency = Finite 0, sd_p99_latency = Finite 0\<rparr>"
  by (simp add: avg_latency_def median_latency_def p99_latency_def DailyStats_init_def
      format_stats_def calculate_uptime_percentage_def)

section \<open>The sink\<close>

















section \<open>The read endpoint\<close>

lemma get_customer_stats_filter:
  "get_customer_stats db c from_date =
     (if filter (matches c from_date) (rows db) = []
      then Inl (HTTPException 404 ''No stats found for customer'')
      else Inr (filter (matches c from_date) (rows db)))"
proof -
  have "(case from_date of
           Some f \<Rightarrow> filter (\<lambda>r. date_key f \<le> date_key (row_date r))
                      (filter (\<lambda>r. row_customer_id r = c) (rows db))
         | None \<Rightarrow> filter (\<lambda>r. row_customer_id r = c) (rows db))
        = filter (matches c from_date) (rows db)"
    by (cases from_date) (simp_all add: matches_def [abs_def] conj_commute)
  then show ?thesis
    by (simp add: get_customer_stats_def)
qed

text \<open>
  C6, as stated: a customer with at least one record never gets not found, whatever the
  value of \<^verbatim>\<open>from\<close>. It fails: the customer of the one stored record, of 2024-10-26, gets
  404 for \<^verbatim>\<open>from=2024-10-27\<close>.
\<close>

theorem get_customer_stats_from_counterexample:
  "map row_customer_id (rows db_A) = [''cust_1'']
   \<and> get_customer_stats db_A ''cust_1'' (Some oct_27)
     = Inl (HTTPException 404 ''No stats found for customer'')"
  by (simp add: get_customer_stats_def db_A_def row_A_def oct_27_def date_key_def)

text \<open>
  C6, amended. The endpoint responds not found (404) exactly when no record of the customer
  passes the filter of the request: without \<^verbatim>\<open>from\<close>, when the customer has no record at
  all; with \<^verbatim>\<open>from\<close>, when the customer has no record of that date or later, also when
  earlier records of the customer exist. Otherwise it returns the records that pass.
\<close>

theorem get_customer_stats_not_found:
  "(get_customer_stats db c from_date = Inl (HTTPException 404 ''No stats found for customer'')
      \<longleftrightarrow> \<not> (\<exists>r \<in> set (rows db). matches c from_date r))
   \<and> (get_customer_stats db c None = Inl (HTTPException 404 ''No stats found for customer'')
      \<longleftrightarrow> \<not> (\<exists>r \<in> set (rows db). row_customer_id r = c))
   \<and> (get_customer_stats db c (Some f)
        = Inl (HTTPException 404 ''No stats found for customer'')
      \<longleftrightarrow> \<not> (\<exists>r \<in> set (rows db). row_customer_id r = c \<and> date_key f \<le> date_key (row_date r)))
   \<and> ((\<exists>r \<in> set (rows db). matches c from_date r) \<longrightarrow>
        get_customer_stats db c from_date = Inr (filter (matches c from_date) (rows db)))"
  by (simp add: get_customer_stats_filter filter_empty_conv matches_def)

theorem get_customer_stats_not_found_witness:
  "matches ''cust_1'' None row_A
   \<and> get_customer_stats db_A ''cust_1'' None = Inr [row_A]
   \<and> get_customer_stats db_A ''cust_2'' None
     = Inl (HTTPException 404 ''No stats found for customer'')"
proof -
  have "matches ''cust_1'' None row_A" "\<not> matches ''cust_2'' None row_A"
    by (simp_all add: matches_def row_A_def)
  then show ?thesis
    using get_customer_stats_not_found [of db_A "''cust_1''" None oct_27]
      get_customer_stats_not_found [of db_A "''cust_2''" None oct_27]
    by (simp add: db_A_def)
qed

section \<open>The parser drops malformed lines\<close>

lemma item_error: "item xs i = Inl e \<Longrightarrow> e = IndexError"
  by (simp add: item_def split: if_splits)

lemma item_Inr: "item xs i = Inr x \<longleftrightarrow> i < length xs \<and> x = xs ! i"
  by (auto simp: item_def)

lemma item_Inl: "isl (item xs i) \<longleftrightarrow> length xs \<le> i"
  by (auto simp: item_def)

lemma strptime_error: "strptime s = Inl e \<Longrightarrow> e = ValueError"
  by (auto simp: strptime_def split: option.splits if_splits prod.splits)

lemma py_int_error: "py_int s = Inl e \<Longrightarrow> e = ValueError"
  by (auto simp: py_int_def split: if_splits prod.splits)

lemma py_float_error: "py_float s = Inl e \<Longrightarrow> e = ValueError"
  by (auto simp: py_float_def Let_def split: if_splits prod.splits option.splits)

lemma and_then_simps [simp]:
  "and_then (Inl e) f = Inl e" "and_then (Inr x) f = f x"
  by (simp_all add: and_then_def)

lemma and_then_error:
  "and_then r f = Inl e \<Longrightarrow> (r = Inl e \<Longrightarrow> P) \<Longrightarrow> (\<And>x. r = Inr x \<Longrightarrow> f x = Inl e \<Longrightarrow> P) \<Longrightarrow> P"
  by (cases r) simp_all

lemma parse_fields_error:
  assumes "parse_fields line = Inl e"
  shows "e = IndexError \<or> e = ValueError"
  using assms unfolding parse_fields_def Let_def
  by (elim and_then_error) (auto dest: item_error strptime_error py_int_error py_float_error)

lemma parse_log_line_total: "parse_log_line line \<noteq> Inl e"
  using parse_fields_error [of line]
  by (auto simp: parse_log_line_def caught_def split: sum.splits)

lemma parse_fields_malformed: "isl (parse_fields line) \<longleftrightarrow> malformed line"
proof -
  define parts where "parts = split (strip line)"
  show ?thesis
  proof (cases "length parts < 6")
    case True
    then have "malformed line" by (simp add: malformed_def parts_def)
    moreover have "isl (parse_fields line)"
      using True unfolding parse_fields_def parts_def [symmetric] Let_def
      by (auto simp: item_def and_then_def split: sum.splits)
    ultimately show ?thesis by simp
  next
    case False
    then have len: "0 < length parts" "Suc 0 < length parts" "2 < length parts"
      "3 < length parts" "4 < length parts" "5 < length parts"
      by linarith+
    have items: "item parts 0 = Inr (parts ! 0)" "item parts (Suc 0) = Inr (parts ! Suc 0)"
      "item parts 2 = Inr (parts ! 2)" "item parts 3 = Inr (parts ! 3)"
      "item parts 4 = Inr (parts ! 4)" "item parts 5 = Inr (parts ! 5)"
      using len by (simp_all add: item_def)
    have "isl (parse_fields line)
      \<longleftrightarrow> isl (strptime (parts ! 0 @ '' '' @ parts ! 1))
          \<or> isl (py_int (parts ! 4)) \<or> isl (py_float (parts ! 5))"
      unfolding parse_fields_def parts_def [symmetric] Let_def
      by (cases "strptime (parts ! 0 @ '' '' @ parts ! 1)"; cases "py_int (parts ! 4)";
          cases "py_float (parts ! 5)"; simp add: items)
    then show ?thesis
      using False unfolding malformed_def parts_def [symmetric] Let_def by simp
  qed
qed

lemma parse_log_line_None: "parse_log_line line = Inr None \<longleftrightarrow> malformed line"
  using parse_fields_malformed [of line] parse_fields_error [of line]
  by (auto simp: parse_log_line_def caught_def split: sum.splits)

lemma strptime_A:
  "strptime ''2024-10-26 03:05:00''
   = Inr \<lparr>year = 2024, month = 10, day = 26, hour = 3, minute = 5, second = 0,
          microsecond = 0\<rparr>"
  by (simp add: strptime_def match_ymd_def match_hms_def re_m_def re_d_def re_H_def re_M_def
      re_S_def or_else_def is_digit_def is_space_def digit_value_def in_range_def
      check_date_fields_def check_time_fields_def days_in_month_def)

lemma py_int_200: "py_int ''200'' = Inr 200"
  by (simp add: py_int_def strip_def is_space_def is_digit_def decimal_value_def digit_value_def
      int_max_str_digits_def)

lemma bit_length_numeral [simp]:
  "bit_length 0 = 0"
  "bit_length (Suc 0) = 1"
  "bit_length (numeral k) = Suc (bit_length (numeral k div 2))"
  by (simp_all add: bit_length.simps [of 0] bit_length.simps [of "Suc 0"]
      bit_length.simps [of "numeral k"])

lemma round_double_half: "round_double 5 10 = Finite 0.5"
  by (simp add: round_double_def binary_exponent_def round_half_even_def ldexp_def Let_def)

lemma py_float_0_5: "py_float ''0.5'' = Inr (Finite 0.5)"
  by (simp add: py_float_def strip_def is_space_def is_digit_def decimal_value_def
      digit_value_def lower_def mantissa_def is_exponent_mark_def is_point_def round_double_half)

lemma split_line_extra:
  "split (strip line_extra)
   = [''2024-10-26'', ''03:05:00'', ''cust_1'', ''/api/v1/resource2'', ''200'', ''0.5'',
      ''extra'']"
  by (simp add: line_extra_def split_def strip_def is_space_def)

lemma split_line_invalid: "split (strip line_invalid) = [''invalid'', ''log'', ''format'']"
  by (simp add: line_invalid_def split_def strip_def is_space_def)

text \<open>
  C8, as stated: a line whose field count differs from six gives None. It fails for a
  line of seven fields whose first six are well formed: \<^verbatim>\<open>parse_log_line\<close> reads the six
  and returns the entry.
\<close>

theorem parse_log_line_seven_fields_counterexample:
  "length (split (strip line_extra)) = 7
   \<and> parse_log_line line_extra
     = Inr (Some \<lparr>timestamp = \<lparr>year = 2024, month = 10, day = 26, hour = 3, minute = 5,
                                second = 0, microsecond = 0\<rparr>,
                  customer_id = ''cust_1'', request_path = ''/api/v1/resource2'',
                  status_code = 200, duration = Finite 0.5\<rparr>)"
  by (simp add: parse_log_line_def parse_fields_def split_line_extra item_def strptime_A
      py_int_200 py_float_0_5)

text \<open>
  C8, amended. \<^verbatim>\<open>parse_log_line\<close> never raises. It returns None exactly for the lines
  with fewer than six fields, or whose first two fields are no timestamp, or whose fifth
  field is no integer, or whose sixth field is no number; such a line adds no entry to the
  stream behind the parser. Fields beyond the sixth are ignored.
\<close>

theorem parse_log_line_drops_malformed:
  "(\<forall>e. parse_log_line line \<noteq> Inl e)
   \<and> (parse_log_line line = Inr None \<longleftrightarrow> malformed line)
   \<and> (malformed line \<longrightarrow> valid_entries (line # lines) = valid_entries lines)"
proof -
  have "malformed line \<Longrightarrow> valid_entries (line # lines) = valid_entries lines"
    using parse_log_line_None [of line] by (simp split: sum.splits)
  then show ?thesis
    using parse_log_line_total parse_log_line_None by blast
qed

theorem parse_log_line_drops_malformed_witness:
  "malformed line_invalid
   \<and> parse_log_line line_invalid = Inr None
   \<and> valid_entries [line_invalid, line_extra] = valid_entries [line_extra]"
proof -
  have "malformed line_invalid"
    by (simp add: malformed_def split_line_invalid)
  then show ?thesis
    using parse_log_line_drops_malformed [of line_invalid "[line_extra]"]
    by (simp del: valid_entries.simps)
qed

section \<open>Parsing is lossless: characters\<close>

lemma of_char_digit_char: "k < 10 \<Longrightarrow> (of_char (digit_char k) :: nat) = 48 + k"
  by (simp add: digit_char_def)

lemma digit_char_digit:
  assumes "k < 10"
  shows "is_digit (digit_char k)" "digit_value (digit_char k) = k"
  using assms by (simp_all add: is_digit_def digit_value_def of_char_digit_char)

lemma digit_char_eq: "k < 10 \<Longrightarrow> c = digit_char k \<longleftrightarrow> (of_char c :: nat) = 48 + k"
  by (metis of_char_digit_char of_char_eq_iff)

lemma digit_char_in_range:
  "k < 10 \<Longrightarrow> in_range lo hi (digit_char k)
     \<longleftrightarrow> (of_char lo :: nat) \<le> 48 + k \<and> 48 + k \<le> (of_char hi :: nat)"
  by (simp add: in_range_def of_char_digit_char)

lemma is_digit_not_special:
  assumes "is_digit c"
  shows "\<not> is_space c" "\<not> is_point c" "\<not> is_exponent_mark c" "c \<noteq> CHR ''-''" "c \<noteq> CHR ''+''"
    "c \<noteq> CHR ''_''" "lower c = c" "c \<noteq> CHR ''i''" "c \<noteq> CHR ''n''"
  using assms
  by (auto simp: is_digit_def is_space_def is_point_def is_exponent_mark_def lower_def Let_def)

section \<open>Two digits under the directives\<close>

lemma two_digits_ex:
  assumes "n < 100"
  shows "\<exists>a b. a < 10 \<and> b < 10 \<and> n = 10 * a + b \<and> two_digits n = [digit_char a, digit_char b]"
proof -
  have "n div 10 < 10 \<and> n mod 10 < 10 \<and> n = 10 * (n div 10) + n mod 10
    \<and> two_digits n = [digit_char (n div 10), digit_char (n mod 10)]"
    using assms by (simp add: two_digits_def)
  then show ?thesis by blast
qed

lemma two_chars_digits:
  "a < 10 \<Longrightarrow> b < 10 \<Longrightarrow> two_chars p q (digit_char a # digit_char b # r)
     = (if p (digit_char a) \<and> q (digit_char b) then Some (10 * a + b, r) else None)"
  by (simp add: digit_char_digit)

lemma one_char_digit:
  "a < 10 \<Longrightarrow> one_char p (digit_char a # r) = (if p (digit_char a) then Some (a, r) else None)"
  by (simp add: digit_char_digit)

lemma re_m_digits:
  "a < 10 \<Longrightarrow> b < 10 \<Longrightarrow>
   re_m (digit_char a # digit_char b # r) =
     (if a = 1 \<and> b \<le> 2 \<or> a = 0 \<and> 1 \<le> b then Some (10 * a + b, r)
      else if 1 \<le> a then Some (a, digit_char b # r) else None)"
  by (simp add: re_m_def or_else_def digit_char_digit digit_char_eq digit_char_in_range)

lemma re_d_digits:
  "a < 10 \<Longrightarrow> b < 10 \<Longrightarrow>
   re_d (digit_char a # digit_char b # r) =
     (if a = 3 \<and> b \<le> 1 \<or> 1 \<le> a \<and> a \<le> 2 \<or> a = 0 \<and> 1 \<le> b then Some (10 * a + b, r)
      else if 1 \<le> a then Some (a, digit_char b # r) else None)"
  by (simp add: re_d_def or_else_def digit_char_digit digit_char_eq digit_char_in_range)

lemma re_H_digits:
  "a < 10 \<Longrightarrow> b < 10 \<Longrightarrow>
   re_H (digit_char a # digit_char b # r) =
     (if a = 2 \<and> b \<le> 3 \<or> a \<le> 1 then Some (10 * a + b, r)
      else Some (a, digit_char b # r))"
  by (simp add: re_H_def or_else_def digit_char_digit digit_char_eq digit_char_in_range)

lemma re_M_digits:
  "a < 10 \<Longrightarrow> b < 10 \<Longrightarrow>
   re_M (digit_char a # digit_char b # r) =
     (if a \<le> 5 then Some (10 * a + b, r) else Some (a, digit_char b # r))"
  by (simp add: re_M_def or_else_def digit_char_digit digit_char_eq digit_char_in_range)

lemma re_S_digits:
  "a < 10 \<Longrightarrow> b < 10 \<Longrightarrow>
   re_S (digit_char a # digit_char b # r) =
     (if a = 6 \<and> b \<le> 1 \<or> a \<le> 5 then Some (10 * a + b, r)
      else Some (a, digit_char b # r))"
  by (simp add: re_S_def or_else_def digit_char_digit digit_char_eq digit_char_in_range)

lemma re_m_two_digits:
  assumes "1 \<le> n" "n \<le> 12"
  shows "re_m (two_digits n @ r) = Some (n, r)"
proof -
  obtain a b where ab: "a < 10" "b < 10" "n = 10 * a + b"
      "two_digits n = [digit_char a, digit_char b]"
    using two_digits_ex [of n] assms by auto
  have "a = 1 \<and> b \<le> 2 \<or> a = 0 \<and> 1 \<le> b"
    using assms ab(1-3) by linarith
  then show ?thesis
    unfolding ab(4) using ab(1-3) by (simp add: re_m_digits)
qed

lemma re_d_two_digits:
  assumes "1 \<le> n" "n \<le> 31"
  shows "re_d (two_digits n @ r) = Some (n, r)"
proof -
  obtain a b where ab: "a < 10" "b < 10" "n = 10 * a + b"
      "two_digits n = [digit_char a, digit_char b]"
    using two_digits_ex [of n] assms by auto
  have "a = 3 \<and> b \<le> 1 \<or> 1 \<le> a \<and> a \<le> 2 \<or> a = 0 \<and> 1 \<le> b"
    using assms ab(1-3) by linarith
  then show ?thesis
    unfolding ab(4) using ab(1-3) by (simp add: re_d_digits)
qed

lemma re_H_two_digits:
  assumes "n \<le> 23"
  shows "re_H (two_digits n @ r) = Some (n, r)"
proof -
  obtain a b where ab: "a < 10" "b < 10" "n = 10 * a + b"
      "two_digits n = [digit_char a, digit_char b]"
    using two_digits_ex [of n] assms by auto
  have "a = 2 \<and> b \<le> 3 \<or> a \<le> 1"
    using assms ab(1-3) by linarith
  then show ?thesis
    unfolding ab(4) using ab(1-3) by (simp add: re_H_digits)
qed

lemma re_M_two_digits:
  assumes "n \<le> 59"
  shows "re_M (two_digits n @ r) = Some (n, r)"
proof -
  obtain a b where ab: "a < 10" "b < 10" "n = 10 * a + b"
      "two_digits n = [digit_char a, digit_char b]"
    using two_digits_ex [of n] assms by auto
  have "a \<le> 5"
    using assms ab(1-3) by linarith
  then show ?thesis
    unfolding ab(4) using ab(1-3) by (simp add: re_M_digits)
qed

lemma re_S_two_digits:
  assumes "n \<le> 59"
  shows "re_S (two_digits n @ r) = Some (n, r)"
proof -
  obtain a b where ab: "a < 10" "b < 10" "n = 10 * a + b"
      "two_digits n = [digit_char a, digit_char b]"
    using two_digits_ex [of n] assms by auto
  have "a \<le> 5"
    using assms ab(1-3) by linarith
  then show ?thesis
    unfolding ab(4) using ab(1-3) by (simp add: re_S_digits)
qed

lemma re_Y_pad4:
  assumes "n \<le> 9999"
  shows "re_Y (pad4 n @ r) = Some (n, r)"
proof -
  have hi: "n div 100 < 100" and lo: "n mod 100 < 100"
    using assms by simp_all
  obtain a b where ab: "a < 10" "b < 10" "n div 100 = 10 * a + b"
      "two_digits (n div 100) = [digit_char a, digit_char b]"
    using two_digits_ex [OF hi] by auto
  obtain c d where cd: "c < 10" "d < 10" "n mod 100 = 10 * c + d"
      "two_digits (n mod 100) = [digit_char c, digit_char d]"
    using two_digits_ex [OF lo] by auto
  have "n = 100 * (n div 100) + n mod 100"
    by simp
  then have "a * 1000 + b * 100 + c * 10 + d = n"
    using ab(3) cd(3) by linarith
  then show ?thesis
    using ab(1,2) cd(1,2) by (simp add: pad4_def ab(4) cd(4) digit_char_digit)
qed

section \<open>Reading the timestamp text back\<close>

lemma match_ymd_text:
  assumes "check_date_fields y m d"
  shows "match_ymd (pad4 y @ CHR ''-'' # two_digits m @ CHR ''-'' # two_digits d @ r)
         = Some ((y, m, d), r)"
proof -
  have "y \<le> 9999" "1 \<le> m" "m \<le> 12" "1 \<le> d" "d \<le> 31"
    using assms by (auto simp: check_date_fields_def days_in_month_def split: if_splits)
  then show ?thesis
    by (simp add: match_ymd_def re_Y_pad4 re_m_two_digits re_d_two_digits)
qed

lemma match_hms_text:
  assumes "check_time_fields h mi s us"
  shows "match_hms (two_digits h @ CHR '':'' # two_digits mi @ CHR '':'' # two_digits s @ r)
         = Some ((h, mi, s), r)"
  using assms
  by (simp add: check_time_fields_def match_hms_def re_H_two_digits re_M_two_digits
      re_S_two_digits)

lemma two_digits_no_space: "n < 100 \<Longrightarrow> dropWhile is_space (two_digits n @ r) = two_digits n @ r"
  by (simp add: two_digits_def is_digit_not_special digit_char_digit)

lemma strptime_text:
  assumes "valid_datetime t" "microsecond t = 0"
  shows "strptime ((pad4 (year t) @ ''-'' @ two_digits (month t) @ ''-'' @ two_digits (day t))
                   @ '' '' @ (two_digits (hour t) @ '':'' @ two_digits (minute t) @ '':''
                              @ two_digits (second t))) = Inr t"
proof -
  have d: "check_date_fields (year t) (month t) (day t)"
    and c: "check_time_fields (hour t) (minute t) (second t) 0"
    using assms by (simp_all add: valid_datetime_def)
  have h: "hour t < 100"
    using c by (simp add: check_time_fields_def)
  have sp: "re_spaces (CHR '' '' # two_digits (hour t) @ r) = Some (two_digits (hour t) @ r)" for r
    using two_digits_no_space [OF h] by (simp add: is_space_def)
  have eq: "\<lparr>year = year t, month = month t, day = day t, hour = hour t, minute = minute t,
             second = second t, microsecond = 0\<rparr> = t"
    using assms(2) by (cases t) simp
  have "strptime ((pad4 (year t) @ ''-'' @ two_digits (month t) @ ''-'' @ two_digits (day t))
                   @ '' '' @ (two_digits (hour t) @ '':'' @ two_digits (minute t) @ '':''
                              @ two_digits (second t)))
        = Inr \<lparr>year = year t, month = month t, day = day t, hour = hour t, minute = minute t,
             second = second t, microsecond = 0\<rparr>"
    using d c match_hms_text [OF c, of "[]"]
    by (simp add: strptime_def match_ymd_text [OF d] sp del: re_spaces.simps)
  then show ?thesis
    by (simp only: eq)
qed

section \<open>Splitting a line\<close>

lemma split_from_spaces:
  "list_all is_space b \<Longrightarrow> split_from b acc = (if acc = [] then [] else [acc])"
  by (induction b arbitrary: acc) simp_all

lemma split_from_trailing:
  "list_all is_space b \<Longrightarrow> split_from (a @ b) acc = split_from a acc"
  by (induction a arbitrary: acc) (simp_all add: split_from_spaces)

lemma split_from_leading: "split_from (dropWhile is_space s) [] = split_from s []"
  by (induction s) simp_all

lemma split_strip: "split (strip s) = split s"
proof -
  define u where "u = dropWhile is_space s"
  have "u = rev (dropWhile is_space (rev u)) @ rev (takeWhile is_space (rev u))"
    by (metis rev_append rev_rev_ident takeWhile_dropWhile_id)
  moreover have "list_all is_space (rev (takeWhile is_space (rev u)))"
    by (simp add: list_all_iff) (meson set_takeWhileD)
  ultimately have "split_from (rev (dropWhile is_space (rev u))) [] = split_from u []"
    by (metis split_from_trailing)
  moreover have "split_from u [] = split_from s []"
    unfolding u_def by (rule split_from_leading)
  ultimately show ?thesis
    by (simp add: split_def strip_def flip: u_def)
qed

lemma split_from_token:
  "list_all (\<lambda>c. \<not> is_space c) w \<Longrightarrow> split_from (w @ r) acc = split_from r (acc @ w)"
  by (induction w arbitrary: acc) simp_all

lemma split_from_token_space:
  "token w \<Longrightarrow> split_from (w @ CHR '' '' # r) [] = w # split_from r []"
  by (simp add: token_def split_from_token is_space_def)

lemma split_from_token_end: "token w \<Longrightarrow> split_from w [] = [w]"
  using split_from_token [of w "[]" "[]"] by (simp add: token_def)

lemma split_six:
  assumes "token a" "token b" "token c" "token d" "token e" "token f"
  shows "split ((a @ '' '' @ b) @ '' '' @ c @ '' '' @ d @ '' '' @ e @ '' '' @ f)
         = [a, b, c, d, e, f]"
  using assms by (simp add: split_def split_from_token_space split_from_token_end)

lemma strip_id:
  assumes "s \<noteq> []" "\<not> is_space (hd s)" "\<not> is_space (last s)"
  shows "strip s = s"
proof -
  have "dropWhile is_space s = s"
    using assms(2) by (simp add: dropWhile_eq_self_iff)
  moreover have "dropWhile is_space (rev s) = rev s"
    using assms(1,3) by (simp add: dropWhile_eq_self_iff hd_rev)
  ultimately show ?thesis
    by (simp add: strip_def)
qed

section \<open>Reading digits back\<close>

lemma digitpart_digits: "digits w \<Longrightarrow> digitpart w"
proof (induction w rule: digitpart.induct)
  case 1
  then show ?case by (simp add: digits_def)
next
  case (2 c)
  then show ?case by (simp add: digits_def)
next
  case (3 c d r)
  then have "is_digit c" "is_digit d" "digits (d # r)"
    by (simp_all add: digits_def)
  then show ?case
    using 3 by (simp add: is_digit_not_special)
qed

lemma digits_token: "digits w \<Longrightarrow> token w"
  by (auto simp: digits_def token_def list_all_iff is_digit_not_special)

lemma digits_hd_last: "digits w \<Longrightarrow> is_digit (hd w) \<and> is_digit (last w)"
  by (cases w) (auto simp: digits_def list_all_iff)

lemma py_int_digits:
  assumes "digits w" "length w \<le> int_max_str_digits"
  shows "py_int w = Inr (int (decimal_value w))"
proof -
  have hl: "is_digit (hd w)" "is_digit (last w)" "w \<noteq> []"
    using digits_hd_last [OF assms(1)] assms(1) by (simp_all add: digits_def)
  then have "strip w = w"
    by (simp add: strip_id is_digit_not_special)
  moreover have "signed w = (False, w)"
    using hl by (cases w) (simp_all add: is_digit_not_special)
  moreover have "length (filter is_digit w) = length w"
    using assms(1) by (simp add: digits_def list_all_iff)
  ultimately show ?thesis
    using digitpart_digits [OF assms(1)] assms(2)
    by (simp add: py_int_def)
qed

lemma mantissa_duration:
  assumes "digits ip" "fraction fp"
  shows "mantissa (duration_text ip fp) = Some (duration_ratio ip fp)"
proof (cases fp)
  case None
  have np: "\<forall>c \<in> set ip. \<not> is_point c"
    using assms(1) by (auto simp: digits_def list_all_iff is_digit_not_special)
  then have td: "takeWhile (\<lambda>c. \<not> is_point c) ip = ip"
    "dropWhile (\<lambda>c. \<not> is_point c) ip = []"
    by (simp_all add: takeWhile_eq_all_conv)
  show ?thesis
    using None digitpart_digits [OF assms(1)]
    by (simp add: mantissa_def duration_text_def duration_ratio_def td Let_def)
next
  case (Some f)
  have f: "list_all is_digit f"
    using assms(2) Some by (simp add: fraction_def)
  have np: "\<And>c. c \<in> set ip \<Longrightarrow> \<not> is_point c"
    using assms(1) by (auto simp: digits_def list_all_iff is_digit_not_special)
  have t: "takeWhile (\<lambda>c. \<not> is_point c) (ip @ CHR ''.'' # f) = ip"
    using np by (simp add: takeWhile_append2 is_point_def)
  have d: "dropWhile (\<lambda>c. \<not> is_point c) (ip @ CHR ''.'' # f) = CHR ''.'' # f"
    using np by (simp add: dropWhile_append2 is_point_def)
  have fd: "f = [] \<or> digitpart f"
    using f digitpart_digits [of f] by (auto simp: digits_def)
  have len: "length (filter is_digit f) = length f"
    using f by (simp add: list_all_iff)
  show ?thesis
    using Some digitpart_digits [OF assms(1)] fd assms(1)
    by (auto simp: mantissa_def duration_text_def duration_ratio_def t d len digits_def Let_def)
qed

lemma py_float_duration:
  assumes "digits ip" "fraction fp"
  shows "py_float (duration_text ip fp) = Inr (duration_float ip fp)"
proof -
  define body where "body = duration_text ip fp"
  obtain c cs where ip: "ip = c # cs" "is_digit c"
    using assms(1) by (cases ip) (simp_all add: digits_def)
  have chars: "\<forall>x \<in> set body. is_digit x \<or> x = CHR ''.''"
    using assms by (auto simp: body_def duration_text_def digits_def fraction_def list_all_iff
        split: option.splits)
  obtain bs where body: "body = c # bs"
    by (simp add: body_def duration_text_def ip)
  have "last body \<in> set body"
    using body by simp
  moreover have "\<not> is_space CHR ''.''"
    by (simp add: is_space_def)
  ultimately have "\<not> is_space (last body)"
    using chars is_digit_not_special(1) by metis
  then have "strip body = body"
    using ip(2) by (intro strip_id) (simp_all add: body is_digit_not_special)
  moreover have "signed body = (False, body)"
    using ip(2) by (simp add: body is_digit_not_special)
  moreover have "map lower body \<noteq> ''inf''" "map lower body \<noteq> ''infinity''"
    "map lower body \<noteq> ''nan''"
    using ip(2) by (simp_all add: body is_digit_not_special)
  moreover note mantissa_duration [OF assms]
  ultimately have *: "py_float body
      = (case mantissa (takeWhile (\<lambda>c. \<not> is_exponent_mark c) body) of
           None \<Rightarrow> Inl ValueError
         | Some (n, d) \<Rightarrow>
             (case (case dropWhile (\<lambda>c. \<not> is_exponent_mark c) body of
                     [] \<Rightarrow> Some 0 | x # xa \<Rightarrow> exponent xa) of
                None \<Rightarrow> Inl ValueError
              | Some k \<Rightarrow> Inr (round_double (n * 10 ^ nat k) (d * 10 ^ nat (- k)))))"
    by (simp add: py_float_def Let_def split: option.splits prod.splits)
  have "\<not> is_exponent_mark CHR ''.''"
    by (simp add: is_exponent_mark_def)
  then have "\<forall>x \<in> set body. \<not> is_exponent_mark x"
    using chars is_digit_not_special(3) by metis
  then have td: "takeWhile (\<lambda>c. \<not> is_exponent_mark c) body = body"
    "dropWhile (\<lambda>c. \<not> is_exponent_mark c) body = []"
    by (simp_all add: takeWhile_eq_all_conv)
  have m: "mantissa body = Some (duration_ratio ip fp)"
    unfolding body_def by (rule mantissa_duration [OF assms])
  have "py_float body = Inr (duration_float ip fp)"
    unfolding * td by (simp add: m duration_float_def split: prod.splits)
  then show ?thesis
    by (simp only: body_def)
qed

lemma decimal_value_snoc:
  "is_digit c \<Longrightarrow> decimal_value (xs @ [c]) = 10 * decimal_value xs + digit_value c"
  by (simp add: decimal_value_def)

lemma show_nat_digits: "digits (show_nat n)"
proof (induction n rule: show_nat.induct)
  case (1 n)
  show ?case
  proof (cases "n < 10")
    case True
    then show ?thesis
      by (subst show_nat.simps) (simp add: digits_def digit_char_digit)
  next
    case False
    then have "digits (show_nat (n div 10))"
      using 1 by simp
    then show ?thesis
      using False
      by (subst show_nat.simps) (simp add: digits_def digit_char_digit)
  qed
qed

lemma decimal_value_show_nat: "decimal_value (show_nat n) = n"
proof (induction n rule: show_nat.induct)
  case (1 n)
  show ?case
  proof (cases "n < 10")
    case True
    then show ?thesis
      by (subst show_nat.simps)
        (simp add: decimal_value_def digit_char_digit)
  next
    case False
    then have "decimal_value (show_nat (n div 10)) = n div 10"
      using 1 by simp
    then show ?thesis
      using False
      by (subst show_nat.simps) (simp add: decimal_value_snoc digit_char_digit)
  qed
qed

section \<open>The whole line\<close>

lemma token_two_digits: "list_all (\<lambda>c. \<not> is_space c) (two_digits n)"
  by (simp add: two_digits_def is_digit_not_special digit_char_digit)

lemma token_date_text:
  "token (pad4 y @ ''-'' @ two_digits m @ ''-'' @ two_digits d)"
  using token_two_digits
  by (simp add: token_def pad4_def is_space_def)

lemma token_time_text:
  "token (two_digits h @ '':'' @ two_digits mi @ '':'' @ two_digits s)"
  using token_two_digits
  by (simp add: token_def is_space_def)

lemma token_duration_text:
  assumes "digits ip" "fraction fp"
  shows "token (duration_text ip fp)"
proof -
  have "\<not> is_space CHR ''.''"
    by (simp add: is_space_def)
  then show ?thesis
    using assms
    by (auto simp: token_def duration_text_def digits_def fraction_def list_all_iff
        is_digit_not_special split: option.splits)
qed

lemma length_show_nat: "n < 10 ^ k \<Longrightarrow> 0 < k \<Longrightarrow> length (show_nat n) \<le> k"
proof (induction n arbitrary: k rule: show_nat.induct)
  case (1 n)
  show ?case
  proof (cases "n < 10")
    case True
    then show ?thesis
      using 1(3) by (subst show_nat.simps) simp
  next
    case False
    obtain j where k: "k = Suc j"
      using 1(3) by (cases k) simp_all
    have "0 < j"
      using False 1(2) k by (cases j) simp_all
    moreover have "n div 10 < 10 ^ j"
      using 1(2) k by (simp add: less_mult_imp_div_less mult.commute)
    ultimately have "length (show_nat (n div 10)) \<le> j"
      using 1(1) [OF False] by simp
    then show ?thesis
      using False k by (subst show_nat.simps) simp
  qed
qed

lemma duration_value_ratio:
  "duration_value ip fp = real (fst (duration_ratio ip fp)) / real (snd (duration_ratio ip fp))"
  by (simp add: duration_value_def duration_ratio_def add_divide_distrib split: option.splits)

section \<open>Floats that are read exactly\<close>

lemma bit_length_bounds: "0 < n \<Longrightarrow> 2 ^ (bit_length n - 1) \<le> n \<and> n < 2 ^ bit_length n"
proof (induction n rule: bit_length.induct)
  case (1 n)
  show ?case
  proof (cases "n div 2 = 0")
    case True
    then have "n = 1"
      using 1(2) by linarith
    then show ?thesis
      by (simp add: bit_length.simps [of "Suc 0"] bit_length.simps [of 0])
  next
    case False
    define b where "b = bit_length (n div 2)"
    have ih: "2 ^ (b - 1) \<le> n div 2" "n div 2 < 2 ^ b"
      using 1(1) False 1(2) by (simp_all add: b_def)
    have b: "0 < b"
      using False by (simp add: b_def bit_length.simps [of "n div 2"])
    have bl: "bit_length n = Suc b"
      using 1(2) by (simp add: b_def bit_length.simps [of n])
    have "(2::nat) ^ b = 2 * 2 ^ (b - 1)"
      using b by (cases b) simp_all
    then have lo: "2 ^ b \<le> n"
      using ih(1) by linarith
    have "n < 2 * (n div 2) + 2"
      by linarith
    then have hi: "n < 2 ^ Suc b"
      using ih(2) by simp
    show ?thesis
      using lo hi by (simp add: bl)
  qed
qed

lemma ldexp_powi: "ldexp x e = x * 2 powi e"
  by (simp add: ldexp_def power_int_def field_simps power_inverse)

lemma binary_exponent_bounds:
  assumes "0 < n" "0 < d"
  shows "2 powi (binary_exponent n d) \<le> real n / real d"
    and "real n / real d < 2 powi (binary_exponent n d + 1)"
proof -
  define a where "a = bit_length n"
  define b where "b = bit_length d"
  define e where "e = int a - int b"
  have an: "2 ^ (a - 1) \<le> n" "n < 2 ^ a" and bd: "2 ^ (b - 1) \<le> d" "d < 2 ^ b"
    using bit_length_bounds [OF assms(1)] bit_length_bounds [OF assms(2)]
    by (simp_all add: a_def b_def)
  have a0: "0 < a" and b0: "0 < b"
    using assms by (simp_all add: a_def b_def bit_length.simps [of n] bit_length.simps [of d])
  have ran: "2 powi (int a - 1) \<le> real n" "real n < 2 powi (int a)"
    and rbd: "2 powi (int b - 1) \<le> real d" "real d < 2 powi (int b)"
  proof -
    have "real (2 ^ (a - 1)) \<le> real n" "real n < real (2 ^ a)"
      "real (2 ^ (b - 1)) \<le> real d" "real d < real (2 ^ b)"
      using an bd by (simp_all only: of_nat_le_iff of_nat_less_iff)
    moreover have "nat (int a - 1) = a - 1" "nat (int b - 1) = b - 1"
      by simp_all
    ultimately show "2 powi (int a - 1) \<le> real n" "real n < 2 powi (int a)"
      "2 powi (int b - 1) \<le> real d" "real d < 2 powi (int b)"
      using a0 b0 by (simp_all add: power_int_def)
  qed
  have test: "(d * 2 ^ nat e \<le> n * 2 ^ nat (- e)) = (2 powi e \<le> real n / real d)"
  proof (cases "0 \<le> e")
    case True
    have "(d * 2 ^ nat e \<le> n) = (real (d * 2 ^ nat e) \<le> real n)"
      by (simp only: of_nat_le_iff)
    also have "\<dots> = (2 ^ nat e \<le> real n / real d)"
      using assms(2) by (simp add: pos_le_divide_eq mult.commute)
    finally show ?thesis
      using True by (simp add: power_int_def)
  next
    case False
    have "(d \<le> n * 2 ^ nat (- e)) = (real d \<le> real (n * 2 ^ nat (- e)))"
      by (simp only: of_nat_le_iff)
    also have "\<dots> = (1 / 2 ^ nat (- e) \<le> real n / real d)"
      using assms(2) by (simp add: field_simps)
    finally show ?thesis
      using False by (simp add: power_int_def power_one_over inverse_eq_divide)
  qed
  have dpos: "0 < real d" "0 < real n"
    using assms by simp_all
  have "real n / real d < 2 powi (int a) / 2 powi (int b - 1)"
    using dpos ran(2) rbd(1) by (intro frac_less) simp_all
  also have "\<dots> = 2 powi (int a - (int b - 1))"
    by (rule power_int_diff [symmetric]) simp
  also have "int a - (int b - 1) = e + 1"
    by (simp add: e_def)
  finally have up: "real n / real d < 2 powi (e + 1)" .
  have "2 powi (int a - 1) / 2 powi (int b) < real n / real d"
    using dpos ran(1) rbd(2) by (intro frac_less2) simp_all
  moreover have "(2::real) powi (int a - 1) / 2 powi (int b) = 2 powi (int a - 1 - int b)"
    by (rule power_int_diff [symmetric]) simp
  moreover have "int a - 1 - int b = e - 1"
    by (simp add: e_def)
  ultimately have low: "2 powi (e - 1) < real n / real d"
    by (simp only:)
  show "2 powi (binary_exponent n d) \<le> real n / real d"
    using test low by (simp add: binary_exponent_def a_def [symmetric] b_def [symmetric] e_def [symmetric] Let_def)
  show "real n / real d < 2 powi (binary_exponent n d + 1)"
    using test up by (simp add: binary_exponent_def a_def [symmetric] b_def [symmetric] e_def [symmetric] Let_def)
qed

lemma round_half_even_exact: "0 < q \<Longrightarrow> round_half_even (k * q) q = k"
  by (simp add: round_half_even_def)

lemma round_double_positive:
  assumes "0 < n" "0 < d" "real n / real d = real m * 2 powi u" "m < 2 ^ 53" "- 1074 \<le> u"
    "u \<le> 971"
  shows "round_double n d = Finite (real n / real d)"
proof -
  define x where "x = real n / real d"
  define e where "e = max (binary_exponent n d) (- 1022)"
  define ulp where "ulp = e - 52"
  have xm: "x = real m * 2 powi u"
    using assms(3) by (simp add: x_def)
  have xpos: "0 < x"
    using assms(1,2) by (simp add: x_def)
  have m53: "real m < 2 powi 53"
  proof -
    have "real m < real (2 ^ 53)"
      using assms(4) by (simp only: of_nat_less_iff)
    then show ?thesis
      by simp
  qed
  have le: "ulp \<le> u"
  proof (rule ccontr)
    assume "\<not> ulp \<le> u"
    then have u: "u + 53 \<le> e"
      by (simp add: ulp_def)
    then have "e = binary_exponent n d"
      using assms(5) by (simp add: e_def)
    then have "2 powi e \<le> x"
      using binary_exponent_bounds(1) [OF assms(1,2)] by (simp add: x_def)
    moreover have "x < 2 powi 53 * 2 powi u"
      unfolding xm using m53 by (intro mult_strict_right_mono) simp_all
    moreover have "(2::real) powi 53 * 2 powi u = 2 powi (u + 53)"
      by (simp add: power_int_add)
    moreover have "(2::real) powi (u + 53) \<le> 2 powi e"
      using u by (intro power_int_increasing) simp_all
    ultimately show False
      by linarith
  qed
  define M where "M = m * 2 ^ nat (u - ulp)"
  have "(2::real) powi u = 2 powi (u - ulp) * 2 powi ulp"
    by (simp add: power_int_add [symmetric])
  moreover have "(2::real) powi (u - ulp) = 2 ^ nat (u - ulp)"
    using le by (simp add: power_int_def)
  ultimately have xM: "x = real M * 2 powi ulp"
    by (simp add: xm M_def)
  have pw: "(2::real) powi ulp = 2 ^ nat ulp / 2 ^ nat (- ulp)"
    by (simp add: power_int_def power_one_over inverse_eq_divide)
  have "real n = x * real d"
    using assms(2) by (simp add: x_def)
  then have "real n * 2 ^ nat (- ulp) = real M * (real d * 2 ^ nat ulp)"
    by (simp add: xM pw)
  then have "real (n * 2 ^ nat (- ulp)) = real (M * (d * 2 ^ nat ulp))"
    by simp
  then have key: "n * 2 ^ nat (- ulp) = M * (d * 2 ^ nat ulp)"
    by (simp only: of_nat_eq_iff)
  have rounded: "round_half_even (n * 2 ^ nat (- ulp)) (d * 2 ^ nat ulp) = M"
    unfolding key using assms(2) by (intro round_half_even_exact) simp
  have ldx: "ldexp (real M) ulp = x"
    by (simp add: ldexp_powi xM)
  have "x < 2 powi 53 * 2 powi u"
    unfolding xm using m53 by (intro mult_strict_right_mono) simp_all
  also have "\<dots> = 2 powi (u + 53)"
    by (simp add: power_int_add)
  also have "\<dots> \<le> 2 powi 1024"
    using assms(6) by (intro power_int_increasing) simp_all
  finally have "x < 2 ^ 1024"
    by simp
  then have small: "\<not> 2 ^ 1024 \<le> x"
    by simp
  have "n \<noteq> 0"
    using assms(1) by simp
  then have "round_double n d =
      (if 2 ^ 1024 \<le> ldexp (real (round_half_even (n * 2 ^ nat (- ulp)) (d * 2 ^ nat ulp))) ulp
       then PosInf
       else Finite (ldexp (real (round_half_even (n * 2 ^ nat (- ulp)) (d * 2 ^ nat ulp))) ulp))"
    by (simp only: round_double_def Let_def ulp_def e_def if_False)
  also have "\<dots> = Finite x"
    using small by (simp only: rounded ldx if_False)
  finally show ?thesis
    by (simp only: x_def)
qed

text \<open>
  A number \<open>m * 2 ^ u\<close> with a significand \<open>m\<close> below \<open>2 ^ 53\<close> and an exponent \<open>u\<close> from -1074
  to 971 is a float: rounding leaves it as it is.
\<close>

lemma round_double_exact:
  assumes "0 < d" "real n / real d = real m * 2 powi u" "m < 2 ^ 53" "- 1074 \<le> u" "u \<le> 971"
  shows "round_double n d = Finite (real n / real d)"
proof (cases "n = 0")
  case True
  then show ?thesis
    by (simp add: round_double_def)
next
  case False
  then show ?thesis
    using assms by (intro round_double_positive) simp_all
qed

lemma duration_float_exact:
  assumes "representable (duration_value ip fp) m u"
  shows "duration_float ip fp = Finite (duration_value ip fp)"
proof -
  obtain n d where nd: "duration_ratio ip fp = (n, d)"
    by (cases "duration_ratio ip fp")
  then have d: "0 < d"
    by (auto simp: duration_ratio_def split: option.splits)
  have v: "duration_value ip fp = real n / real d"
    using nd by (simp add: duration_value_ratio)
  have r: "real n / real d = real m * 2 powi u" "m < 2 ^ 53" "- 1074 \<le> u" "u \<le> 971"
    using assms unfolding representable_def v by blast+
  have "round_double n d = Finite (real n / real d)"
    using d r by (rule round_double_exact)
  then show ?thesis
    by (simp add: duration_float_def nd v)
qed

text \<open>
  How \<^verbatim>\<open>float()\<close> rounds: one tenth is no float and is read as the float next to it, and
  \<open>2 ^ 53 + 1\<close> is read as \<open>2 ^ 53\<close>.
\<close>

lemma duration_float_tenth:
  "duration_float ''0'' (Some ''1'') \<noteq> Finite (duration_value ''0'' (Some ''1''))"
  by (simp add: duration_float_def duration_ratio_def duration_value_def
      decimal_value_def is_digit_def digit_value_def round_double_def binary_exponent_def
      round_half_even_def ldexp_def Let_def)

lemma round_double_ties_to_even: "round_double 9007199254740993 1 = Finite 9007199254740992"
  by (simp add: round_double_def binary_exponent_def round_half_even_def ldexp_def Let_def)

section \<open>The whole line is read back\<close>

text \<open>
  C9. A line made of a valid date and time printed as \<^verbatim>\<open>YYYY-MM-DD HH:MM:SS\<close>, a customer
  and a path without whitespace, a status code of at most 4300 digits (the limit of
  \<^verbatim>\<open>int()\<close>) and the digits of a
  duration with an optional point, each separated by one blank, parses to the entry with
  exactly that timestamp, customer, path and status code, and with the float nearest to the
  number of the duration text as duration. Where that number is representable, the number
  \<open>m * 2 ^ u\<close> of a float with significand \<open>m\<close> below \<open>2 ^ 53\<close> and exponent \<open>u\<close> from -1074 to
  971, the duration is exactly the number. In particular the line that prints a status code \<open>sc\<close> below
  \<open>10 ^ 4300\<close> in decimal parses to the status code \<open>sc\<close>.
\<close>

theorem parse_log_line_lossless:
  assumes "valid_datetime t" "microsecond t = 0" "token cust" "token path" "digits status"
    "length status \<le> int_max_str_digits" "digits ip" "fraction fp"
  shows "parse_log_line (line_text t cust path status ip fp)
         = Inr (Some \<lparr>timestamp = t, customer_id = cust, request_path = path,
                      status_code = int (decimal_value status),
                      duration = duration_float ip fp\<rparr>)
       \<and> (representable (duration_value ip fp) m u \<longrightarrow>
            parse_log_line (line_text t cust path status ip fp)
            = Inr (Some \<lparr>timestamp = t, customer_id = cust, request_path = path,
                         status_code = int (decimal_value status),
                         duration = Finite (duration_value ip fp)\<rparr>))
       \<and> (sc < 10 ^ int_max_str_digits \<longrightarrow>
            parse_log_line (line_text t cust path (show_nat sc) ip fp)
            = Inr (Some \<lparr>timestamp = t, customer_id = cust, request_path = path,
                         status_code = int sc,
                         duration = duration_float ip fp\<rparr>))"
proof -
  define date_text where
    "date_text = pad4 (year t) @ ''-'' @ two_digits (month t) @ ''-'' @ two_digits (day t)"
  define time_text where
    "time_text = two_digits (hour t) @ '':'' @ two_digits (minute t) @ '':''
                 @ two_digits (second t)"
  have "strptime (date_text @ '' '' @ time_text) = Inr t"
    unfolding date_text_def time_text_def by (rule strptime_text [OF assms(1,2)])
  then have ts: "strptime (date_text @ CHR '' '' # time_text) = Inr t"
    by simp
  have general: "parse_log_line (line_text t cust path st ip fp)
         = Inr (Some \<lparr>timestamp = t, customer_id = cust, request_path = path,
                      status_code = int (decimal_value st),
                      duration = duration_float ip fp\<rparr>)"
    if st: "digits st" "length st \<le> int_max_str_digits" for st
  proof -
    have line: "line_text t cust path st ip fp
        = (date_text @ '' '' @ time_text) @ '' '' @ cust @ '' '' @ path @ '' '' @ st @ '' ''
          @ duration_text ip fp"
      by (simp add: line_text_def timestamp_text_def date_text_def time_text_def)
    have parts: "split (strip (line_text t cust path st ip fp))
        = [date_text, time_text, cust, path, st, duration_text ip fp]"
      unfolding split_strip line
      using assms(3,4) digits_token [OF st(1)] token_duration_text [OF assms(7,8)]
        token_date_text [of "year t" "month t" "day t"]
        token_time_text [of "hour t" "minute t" "second t"]
      by (intro split_six) (simp_all add: date_text_def time_text_def)
    show ?thesis
      by (simp add: parse_log_line_def parse_fields_def parts item_def ts Let_def
          py_int_digits [OF st] py_float_duration [OF assms(7,8)] and_then_def)
  qed
  have printed: "parse_log_line (line_text t cust path (show_nat sc) ip fp)
         = Inr (Some \<lparr>timestamp = t, customer_id = cust, request_path = path,
                      status_code = int sc, duration = duration_float ip fp\<rparr>)"
    if "sc < 10 ^ int_max_str_digits"
  proof -
    have "length (show_nat sc) \<le> int_max_str_digits"
      using that by (rule length_show_nat) (simp add: int_max_str_digits_def)
    then show ?thesis
      using general [OF show_nat_digits [of sc]] by (simp add: decimal_value_show_nat)
  qed
  show ?thesis
    using general [OF assms(5,6)] printed duration_float_exact [of ip fp m u] by simp
qed

theorem parse_log_line_lossless_witness:
  "line_text t_A ''cust_1'' ''/api/v1/resource2'' ''200'' ''0'' (Some ''5'')
     = ''2024-10-26 03:05:00 cust_1 /api/v1/resource2 200 0.5''
   \<and> representable (duration_value ''0'' (Some ''5'')) 1 (- 1)
   \<and> parse_log_line ''2024-10-26 03:05:00 cust_1 /api/v1/resource2 200 0.5''
     = Inr (Some \<lparr>timestamp = t_A, customer_id = ''cust_1'',
                  request_path = ''/api/v1/resource2'', status_code = 200,
                  duration = Finite 0.5\<rparr>)
   \<and> (200 :: nat) < 10 ^ int_max_str_digits
   \<and> parse_log_line (line_text t_A ''cust_1'' ''/api/v1/resource2'' (show_nat 200) ''0''
         (Some ''5''))
     = Inr (Some \<lparr>timestamp = t_A, customer_id = ''cust_1'',
                  request_path = ''/api/v1/resource2'', status_code = 200,
                  duration = Finite 0.5\<rparr>)"
proof -
  have printed: "line_text t_A ''cust_1'' ''/api/v1/resource2'' ''200'' ''0'' (Some ''5'')
     = ''2024-10-26 03:05:00 cust_1 /api/v1/resource2 200 0.5''"
    by (simp add: line_text_def timestamp_text_def t_A_def pad4_def two_digits_def
        digit_char_def duration_text_def char_of_def bit_Suc_0_iff)
  have hyps: "valid_datetime t_A" "microsecond t_A = 0" "token ''cust_1''"
    "token ''/api/v1/resource2''" "digits ''200''" "length ''200'' \<le> int_max_str_digits"
    "digits ''0''" "fraction (Some ''5'')"
    by (simp_all add: valid_datetime_def check_date_fields_def check_time_fields_def
        days_in_month_def t_A_def token_def digits_def fraction_def is_space_def is_digit_def
        int_max_str_digits_def)
  have "(10::nat) ^ 3 \<le> 10 ^ int_max_str_digits"
    by (rule power_increasing) (simp_all add: int_max_str_digits_def)
  then have small: "(200::nat) < 10 ^ int_max_str_digits"
    by simp
  have vals: "decimal_value ''200'' = 200" "duration_value ''0'' (Some ''5'') = 0.5"
    by (simp_all add: decimal_value_def duration_value_def is_digit_def digit_value_def)
  have exact: "representable (duration_value ''0'' (Some ''5'')) 1 (- 1)"
    by (simp add: representable_def vals power_int_minus)
  have float: "duration_float ''0'' (Some ''5'') = Finite 0.5"
    using duration_float_exact [OF exact] by (simp add: vals)
  note lossless = parse_log_line_lossless [OF hyps, of 1 "- 1" 200]
  have "parse_log_line (line_text t_A ''cust_1'' ''/api/v1/resource2'' ''200'' ''0'' (Some ''5''))
     = Inr (Some \<lparr>timestamp = t_A, customer_id = ''cust_1'',
                  request_path = ''/api/v1/resource2'',
                  status_code = int (decimal_value ''200''),
                  duration = Finite (duration_value ''0'' (Some ''5''))\<rparr>)"
    using lossless exact by blast
  moreover have "parse_log_line
       (line_text t_A ''cust_1'' ''/api/v1/resource2'' (show_nat 200) ''0'' (Some ''5''))
     = Inr (Some \<lparr>timestamp = t_A, customer_id = ''cust_1'',
                  request_path = ''/api/v1/resource2'', status_code = int 200,
                  duration = duration_float ''0'' (Some ''5'')\<rparr>)"
    using lossless small by blast
  ultimately show ?thesis
    using exact small by (simp add: printed vals float)
qed

end
